theory Spec2Isabelle
  imports Complex_Main "HOL-Library.Log_Nat" "HOL-Library.Multiset"
begin

chapter \<open>SpeculAI: the dashboard's components and the decision pipeline's core\<close>

text \<open>
  The first part of this theory embeds the code: the dashboard components
  (pagination, trade history, pipeline status, API client, confidence bar, positions
  table, backtest page) as functions on their props and state, with the JavaScript values
  they compute on, and the two pipeline components whose code is not among the sources
  (Memory Retrieval, Risk Engine) as the spec describes them. The second part states and
  proves the properties.
\<close>

section \<open>JavaScript strings\<close>

text \<open>
  Strings are lists of characters. \<open>toUpperCase\<close> is modelled on ASCII letters, which
  is all the status names use; \<open>js_str_less\<close> is the \<open><\<close> of two strings, the
  lexicographic order of their code units.
\<close>

definition upper_char :: "char \<Rightarrow> char" where
  "upper_char c =
     (let n = (of_char c :: nat) in if 97 \<le> n \<and> n \<le> 122 then char_of (n - 32) else c)"

definition toUpperCase :: "string \<Rightarrow> string" where
  "toUpperCase s = map upper_char s"

fun js_str_less :: "string \<Rightarrow> string \<Rightarrow> bool" where
  "js_str_less [] [] = False"
| "js_str_less [] (y # ys) = True"
| "js_str_less (x # xs) [] = False"
| "js_str_less (x # xs) (y # ys) =
     ((of_char x :: nat) < of_char y \<or> (x = y \<and> js_str_less xs ys))"


section \<open>JavaScript numbers\<close>

text \<open>
  A number is \<open>NaN\<close>, an infinity or a finite value. Finite values are rationals (every
  double is one); the sign of zero is not modelled. Comparison, \<open>Math.min\<close>,
  \<open>Math.max\<close>, \<open>Math.floor\<close>, \<open>Math.ceil\<close> and \<open>Math.round\<close> are exact on doubles and
  are defined here as the language defines them. Sums, differences, products and
  quotients are the exact results rounded to a double, as IEEE 754 rounds them;
  \<open>parseFloat\<close> is a parameter of the functions that use it.
\<close>

datatype jsnum = NaN | NegInf | Fin rat | PosInf

subsection \<open>Rounding to a double\<close>

text \<open>The nearest integer, a tie going to the even one.\<close>

definition round_half_even :: "rat \<Rightarrow> int" where
  "round_half_even y =
     (let f = \<lfloor>y\<rfloor>; r = y - of_int f
      in if r < 1 / 2 then f else if 1 / 2 < r then f + 1 else if even f then f else f + 1)"

text \<open>
  The binary exponent of a positive rational \<open>x\<close>: the \<open>e\<close> with
  \<open>2 ^ e \<le> x < 2 ^ (e + 1)\<close>, found from the bit lengths of numerator and denominator.
\<close>

definition binary_exponent :: "rat \<Rightarrow> int" where
  "binary_exponent x =
     (let e0 = bitlen (fst (quotient_of x)) - bitlen (snd (quotient_of x))
      in if 2 powi e0 \<le> x then e0 else e0 - 1)"

text \<open>
  Round to nearest, ties to even, with a significand of 53 bits; below the exponent
  \<open>-1022\<close> the spacing stays that of the subnormal numbers. The exponent is not bounded
  above here: \<open>to_double\<close> turns what exceeds the largest double into an infinity.
\<close>

definition round_double :: "rat \<Rightarrow> rat" where
  "round_double x =
     (if x = 0 then 0
      else (let e = max (binary_exponent \<bar>x\<bar>) (- 1022); ulp = 2 powi (e - 52)
            in sgn x * of_int (round_half_even (\<bar>x\<bar> / ulp)) * ulp))"

definition to_double :: "rat \<Rightarrow> jsnum" where
  "to_double x =
     (let r = round_double x
      in if 2 ^ 1024 \<le> r then PosInf else if r \<le> - (2 ^ 1024) then NegInf else Fin r)"

text \<open>\<open>Number.MAX_SAFE_INTEGER\<close>.\<close>

definition MAX_SAFE_INTEGER :: int where
  "MAX_SAFE_INTEGER = 2 ^ 53 - 1"

subsection \<open>Comparison\<close>

fun js_lt :: "jsnum \<Rightarrow> jsnum \<Rightarrow> bool" where
  "js_lt NaN _ = False"
| "js_lt _ NaN = False"
| "js_lt NegInf NegInf = False"
| "js_lt NegInf _ = True"
| "js_lt (Fin x) NegInf = False"
| "js_lt (Fin x) (Fin y) = (x < y)"
| "js_lt (Fin x) PosInf = True"
| "js_lt PosInf _ = False"

definition js_gt :: "jsnum \<Rightarrow> jsnum \<Rightarrow> bool" where
  "js_gt a b = js_lt b a"

definition js_ge :: "jsnum \<Rightarrow> jsnum \<Rightarrow> bool" where
  "js_ge a b = (a \<noteq> NaN \<and> b \<noteq> NaN \<and> \<not> js_lt a b)"

definition js_le :: "jsnum \<Rightarrow> jsnum \<Rightarrow> bool" where
  "js_le a b = js_ge b a"

definition isNaN :: "jsnum \<Rightarrow> bool" where
  "isNaN n = (n = NaN)"

subsection \<open>The Math object\<close>

definition Math_min :: "jsnum \<Rightarrow> jsnum \<Rightarrow> jsnum" where
  "Math_min a b = (if a = NaN \<or> b = NaN then NaN else if js_lt b a then b else a)"

definition Math_max :: "jsnum \<Rightarrow> jsnum \<Rightarrow> jsnum" where
  "Math_max a b = (if a = NaN \<or> b = NaN then NaN else if js_lt a b then b else a)"

definition Math_floor :: "jsnum \<Rightarrow> jsnum" where
  "Math_floor n = (case n of Fin x \<Rightarrow> Fin (of_int \<lfloor>x\<rfloor>) | _ \<Rightarrow> n)"

definition Math_ceil :: "jsnum \<Rightarrow> jsnum" where
  "Math_ceil n = (case n of Fin x \<Rightarrow> Fin (of_int \<lceil>x\<rceil>) | _ \<Rightarrow> n)"

text \<open>\<open>Math.round\<close>: the nearest integer, a tie going up.\<close>

definition Math_round :: "jsnum \<Rightarrow> jsnum" where
  "Math_round n = (case n of Fin x \<Rightarrow> Fin (of_int \<lfloor>x + 1 / 2\<rfloor>) | _ \<Rightarrow> n)"

subsection \<open>Arithmetic\<close>

definition js_sign :: "jsnum \<Rightarrow> int" where
  "js_sign n =
     (case n of
        NaN \<Rightarrow> 0
      | NegInf \<Rightarrow> - 1
      | PosInf \<Rightarrow> 1
      | Fin x \<Rightarrow> if x < 0 then - 1 else if x = 0 then 0 else 1)"

text \<open>The sum \<open>a + b\<close> of two numbers.\<close>

fun js_plus :: "jsnum \<Rightarrow> jsnum \<Rightarrow> jsnum" where
  "js_plus (Fin x) (Fin y) = to_double (x + y)"
| "js_plus NaN _ = NaN"
| "js_plus _ NaN = NaN"
| "js_plus PosInf NegInf = NaN"
| "js_plus NegInf PosInf = NaN"
| "js_plus PosInf _ = PosInf"
| "js_plus NegInf _ = NegInf"
| "js_plus (Fin x) PosInf = PosInf"
| "js_plus (Fin x) NegInf = NegInf"

text \<open>The difference \<open>a - b\<close>.\<close>

fun js_minus :: "jsnum \<Rightarrow> jsnum \<Rightarrow> jsnum" where
  "js_minus (Fin x) (Fin y) = to_double (x - y)"
| "js_minus NaN _ = NaN"
| "js_minus _ NaN = NaN"
| "js_minus PosInf PosInf = NaN"
| "js_minus NegInf NegInf = NaN"
| "js_minus PosInf _ = PosInf"
| "js_minus NegInf _ = NegInf"
| "js_minus (Fin x) PosInf = NegInf"
| "js_minus (Fin x) NegInf = PosInf"

text \<open>The product \<open>a * b\<close>; an infinity times zero is \<open>NaN\<close>.\<close>

definition js_times :: "jsnum \<Rightarrow> jsnum \<Rightarrow> jsnum" where
  "js_times a b =
     (case (a, b) of
        (Fin x, Fin y) \<Rightarrow> to_double (x * y)
      | _ \<Rightarrow> if a = NaN \<or> b = NaN \<or> js_sign a * js_sign b = 0 then NaN
             else if js_sign a * js_sign b < 0 then NegInf else PosInf)"

text \<open>
  The quotient \<open>a / b\<close>. A finite number divided by zero is an infinity of the sign of
  the dividend (the zero being the positive one), zero by zero is \<open>NaN\<close>, as is an
  infinity by an infinity.
\<close>

definition js_divide :: "jsnum \<Rightarrow> jsnum \<Rightarrow> jsnum" where
  "js_divide a b =
     (case (a, b) of
        (Fin x, Fin y) \<Rightarrow>
          if y = 0 then (if x = 0 then NaN else if 0 < x then PosInf else NegInf)
          else to_double (x / y)
      | (Fin x, PosInf) \<Rightarrow> Fin 0
      | (Fin x, NegInf) \<Rightarrow> Fin 0
      | (PosInf, Fin y) \<Rightarrow> if y < 0 then NegInf else PosInf
      | (NegInf, Fin y) \<Rightarrow> if y < 0 then PosInf else NegInf
      | _ \<Rightarrow> NaN)"



section \<open>Pagination (components/Pagination.tsx)\<close>

text \<open>
  The component receives \<open>total\<close>, \<open>limit\<close> and \<open>offset\<close> as props of type \<open>number\<close>
  and derives everything else from them, in the arithmetic of doubles.
  The callback \<open>onOffsetChange\<close> is modelled by the value it is called with:
  \<open>None\<close> when the handler does not call it.
\<close>

record pagination_props =
  total :: jsnum
  limit :: jsnum
  offset :: jsnum

definition currentPage :: "pagination_props \<Rightarrow> jsnum" where
  "currentPage p = js_plus (Math_floor (js_divide (offset p) (limit p))) (Fin 1)"

definition totalPages :: "pagination_props \<Rightarrow> jsnum" where
  "totalPages p = Math_max (Fin 1) (Math_ceil (js_divide (total p) (limit p)))"

definition hasPrev :: "pagination_props \<Rightarrow> bool" where
  "hasPrev p = js_gt (offset p) (Fin 0)"

definition hasNext :: "pagination_props \<Rightarrow> bool" where
  "hasNext p = js_lt (js_plus (offset p) (limit p)) (total p)"

definition goToPrev :: "pagination_props \<Rightarrow> jsnum option" where
  "goToPrev p =
     (if hasPrev p then Some (Math_max (Fin 0) (js_minus (offset p) (limit p))) else None)"

definition goToNext :: "pagination_props \<Rightarrow> jsnum option" where
  "goToNext p = (if hasNext p then Some (js_plus (offset p) (limit p)) else None)"

text \<open>The range shown is \<open>{total === 0 ? 0 : offset + 1}\<close> to \<open>{Math.min(offset + limit, total)}\<close>.\<close>

definition range_start :: "pagination_props \<Rightarrow> jsnum" where
  "range_start p = (if total p = Fin 0 then Fin 0 else js_plus (offset p) (Fin 1))"

definition range_end :: "pagination_props \<Rightarrow> jsnum" where
  "range_end p = Math_min (js_plus (offset p) (limit p)) (total p)"

text \<open>The two buttons carry \<open>disabled={!hasPrev}\<close> and \<open>disabled={!hasNext}\<close>.\<close>

definition prev_disabled :: "pagination_props \<Rightarrow> bool" where
  "prev_disabled p = (\<not> hasPrev p)"

definition next_disabled :: "pagination_props \<Rightarrow> bool" where
  "next_disabled p = (\<not> hasNext p)"


section \<open>Trade history page (pages/Trades.tsx)\<close>

record filter_field =
  field_key :: string
  field_label :: string
  ftype :: string
  placeholder :: "string option"
  field_options :: "(string \<times> string) list"

text \<open>\<open>FILTER_FIELDS\<close>; an option is the pair of its \<open>value\<close> and its \<open>label\<close>.\<close>

definition FILTER_FIELDS :: "filter_field list" where
  "FILTER_FIELDS =
    [\<lparr>field_key = ''ticker'', field_label = ''Ticker'', ftype = ''text'',
       placeholder = Some ''e.g. AAPL'', field_options = []\<rparr>,
     \<lparr>field_key = ''side'', field_label = ''Side'', ftype = ''select'', placeholder = None,
       field_options = [([], ''All sides''), (''BUY'', ''BUY''), (''SELL'', ''SELL'')]\<rparr>,
     \<lparr>field_key = ''status'', field_label = ''Status'', ftype = ''select'', placeholder = None,
       field_options = [([], ''All statuses''), (''EXECUTED'', ''Executed''),
                  (''PENDING'', ''Pending''), (''FAILED'', ''Failed''),
                  (''CANCELLED'', ''Cancelled'')]\<rparr>,
     \<lparr>field_key = ''start_date'', field_label = ''From'', ftype = ''date'',
       placeholder = None, field_options = []\<rparr>,
     \<lparr>field_key = ''end_date'', field_label = ''To'', ftype = ''date'',
       placeholder = None, field_options = []\<rparr>]"

text \<open>
  The statuses the status filter can send: the option values of the field with key
  \<open>status\<close>, without the empty value (\<open>queryParams\<close> carries \<open>status\<close> only when
  \<open>filters.status\<close> is a non-empty string).
\<close>

definition status_filter_values :: "string list" where
  "status_filter_values =
     filter (\<lambda>v. v \<noteq> []) (concat (map (\<lambda>f. map fst (field_options f))
       (filter (\<lambda>f. field_key f = ''status'') FILTER_FIELDS)))"

text \<open>The \<open>styles\<close> table of \<open>statusBadge\<close>, in the order of the object literal.\<close>

definition styles :: "(string \<times> string) list" where
  "styles =
    [(''EXECUTED'', ''text-gain bg-gain/10 border-gain/30''),
     (''PENDING'', ''text-yellow-400 bg-yellow-400/10 border-yellow-400/30''),
     (''FAILED'', ''text-loss bg-loss/10 border-loss/30''),
     (''CANCELLED'', ''text-gray-400 bg-gray-700 border-gray-600'')]"

text \<open>
  \<open>statusBadge\<close> returns a span whose class is fixed up to \<open>style\<close> and whose text is
  the status; the model returns the pair of both.
  \<open>styles[status.toUpperCase()] ?? styles.CANCELLED\<close>: a status with no entry gets the
  style of \<open>CANCELLED\<close>.
\<close>

definition badge_style :: "string \<Rightarrow> string" where
  "badge_style status =
     (case map_of styles (toUpperCase status) of
        Some style \<Rightarrow> style
      | None \<Rightarrow> (case map_of styles ''CANCELLED'' of Some style \<Rightarrow> style | None \<Rightarrow> []))"

definition statusBadge :: "string \<Rightarrow> string \<times> string" where
  "statusBadge status = (badge_style status, status)"

text \<open>The statuses that have a style entry of their own.\<close>

definition styled_statuses :: "string list" where
  "styled_statuses = map fst styles"

text \<open>The Trade status set of the data model (spec, section 3).\<close>

definition trade_status_domain :: "string set" where
  "trade_status_domain = {''PENDING'', ''FILLED'', ''FAILED'', ''CANCELLED''}"


section \<open>Pipeline status (types/index.ts, components/Sidebar.tsx)\<close>

text \<open>
  \<open>export type PipelineStatus = 'RUNNING' | 'SUCCESS' | 'FAILED' | null\<close>: a value of
  the type is \<open>null\<close> (\<open>None\<close>) or one of the listed string literals. No component
  uses the type: the status of a run reaches the page as a \<open>string | null\<close>.
\<close>

definition PipelineStatus_literals :: "string list" where
  "PipelineStatus_literals = [''RUNNING'', ''SUCCESS'', ''FAILED'']"

definition is_PipelineStatus :: "string option \<Rightarrow> bool" where
  "is_PipelineStatus v = (case v of None \<Rightarrow> True | Some s \<Rightarrow> s \<in> set PipelineStatus_literals)"

text \<open>The PipelineRun status set of the data model (spec, section 3).\<close>

definition pipeline_run_statuses :: "string set" where
  "pipeline_run_statuses = {''RUNNING'', ''SUCCESS'', ''FAILED'', ''PARTIAL_FAILURE''}"

text \<open>
  The keys of \<open>configs\<close> in \<open>PipelineStatusBadge\<close>, each with its label; any other
  status is shown with the grey default and its own text as label.
\<close>

definition badge_configs :: "(string \<times> string) list" where
  "badge_configs =
    [(''RUNNING'', ''Running''), (''SUCCESS'', ''Success''), (''FAILED'', ''Failed'')]"

definition PipelineStatusBadge_label :: "string option \<Rightarrow> string option" where
  "PipelineStatusBadge_label status =
     (case status of
        None \<Rightarrow> None
      | Some s \<Rightarrow> if s = [] then None
                 else (case map_of badge_configs (toUpperCase s) of
                         Some l \<Rightarrow> Some l
                       | None \<Rightarrow> Some s))"


section \<open>API client (api/client.ts)\<close>

text \<open>
  A parsed JSON value; an object is the list of its members in source order (a later
  duplicate key overrides an earlier one, as in \<open>JSON.parse\<close>).
\<close>

datatype json =
    JNull
  | JBool bool
  | JNum rat
  | JStr string
  | JArr "json list"
  | JObj "(string \<times> json) list"

text \<open>
  What \<open>apiFetch\<close> reads of a \<open>Response\<close>: the status code, the status text, and the
  result of \<open>response.json()\<close>, which is \<open>None\<close> when the body is not JSON (the
  promise rejects with a \<open>SyntaxError\<close>). \<open>response.ok\<close> is true exactly for the
  statuses 200 to 299.
\<close>

record response =
  resp_status :: nat
  resp_statusText :: string
  resp_body :: "json option"

definition ok :: "response \<Rightarrow> bool" where
  "ok r = (200 \<le> resp_status r \<and> resp_status r \<le> 299)"

datatype js_error =
    Error string
  | SyntaxError
  | TypeError

text \<open>
  Property access on a parsed value; \<open>None\<close> is \<open>undefined\<close>. Only objects carry the
  properties read here (\<open>error\<close>, \<open>message\<close>, \<open>detail\<close>). \<open>opt_chain\<close> is \<open>v?.k\<close>:
  \<open>undefined\<close> when \<open>v\<close> is \<open>null\<close> or \<open>undefined\<close>.
\<close>

definition get_prop :: "json \<Rightarrow> string \<Rightarrow> json option" where
  "get_prop v k = (case v of JObj members \<Rightarrow> map_of (rev members) k | _ \<Rightarrow> None)"

definition opt_chain :: "json option \<Rightarrow> string \<Rightarrow> json option" where
  "opt_chain v k = (case v of None \<Rightarrow> None | Some JNull \<Rightarrow> None | Some j \<Rightarrow> get_prop j k)"

text \<open>The truth value of an expression in a condition.\<close>

definition truthy :: "json option \<Rightarrow> bool" where
  "truthy v =
     (case v of
        None \<Rightarrow> False
      | Some JNull \<Rightarrow> False
      | Some (JBool b) \<Rightarrow> b
      | Some (JNum n) \<Rightarrow> n \<noteq> 0
      | Some (JStr s) \<Rightarrow> s \<noteq> []
      | Some (JArr _) \<Rightarrow> True
      | Some (JObj _) \<Rightarrow> True)"

text \<open>The decimal digits of a number, as the template literal prints the status.\<close>

fun show_nat :: "nat \<Rightarrow> string" where
  "show_nat n =
     (if n < 10 then [char_of (48 + n)]
      else show_nat (n div 10) @ [char_of (48 + n mod 10)])"

definition http_message :: "response \<Rightarrow> string" where
  "http_message r = ''HTTP '' @ show_nat (resp_status r) @ '': '' @ resp_statusText r"

text \<open>
  \<open>new Error(message)\<close> turns its argument into a string: a string stays as it is,
  any other value goes through the language's \<open>ToString\<close>, a parameter here, as is
  \<open>JSON.stringify\<close>.
\<close>

definition js_String :: "(json \<Rightarrow> string) \<Rightarrow> json \<Rightarrow> string" where
  "js_String ToString v = (case v of JStr s \<Rightarrow> s | _ \<Rightarrow> ToString v)"

definition body_error_message :: "response \<Rightarrow> json option" where
  "body_error_message r = opt_chain (opt_chain (resp_body r) ''error'') ''message''"

definition body_detail :: "response \<Rightarrow> json option" where
  "body_detail r = opt_chain (resp_body r) ''detail''"

text \<open>
  The value of \<open>message\<close> when the \<open>throw\<close> is reached. A body that is not JSON makes
  \<open>response.json()\<close> reject inside the \<open>try\<close>, and the \<open>catch\<close> keeps the HTTP message.
\<close>

definition error_message ::
  "(json \<Rightarrow> string) \<Rightarrow> (json \<Rightarrow> string) \<Rightarrow> response \<Rightarrow> string" where
  "error_message ToString stringify r =
     (case resp_body r of
        None \<Rightarrow> http_message r
      | Some body \<Rightarrow>
          if truthy (body_error_message r) then
            (case body_error_message r of
               Some m \<Rightarrow> js_String ToString m
             | None \<Rightarrow> http_message r)
          else if truthy (body_detail r) then
            (case body_detail r of
               Some (JStr s) \<Rightarrow> s
             | Some d \<Rightarrow> stringify d
             | None \<Rightarrow> http_message r)
          else http_message r)"

text \<open>
  \<open>apiFetch\<close>, from the settled result of \<open>fetch\<close> on: a rejected \<open>fetch\<close> (no
  response at all) propagates; a response that is not \<open>ok\<close> throws an \<open>Error\<close>;
  otherwise the result is that of \<open>response.json()\<close>.
\<close>

definition apiFetch ::
  "(json \<Rightarrow> string) \<Rightarrow> (json \<Rightarrow> string) \<Rightarrow> js_error + response \<Rightarrow> js_error + json" where
  "apiFetch ToString stringify fetched =
     (case fetched of
        Inl e \<Rightarrow> Inl e
      | Inr r \<Rightarrow>
          if \<not> ok r then Inl (Error (error_message ToString stringify r))
          else (case resp_body r of None \<Rightarrow> Inl SyntaxError | Some v \<Rightarrow> Inr v))"


section \<open>Confidence bar (components/ConfidenceBar.tsx)\<close>

text \<open>The prop \<open>value: number | string\<close>.\<close>

datatype num_or_str = Num jsnum | Str string

definition numeric :: "(string \<Rightarrow> jsnum) \<Rightarrow> num_or_str \<Rightarrow> jsnum" where
  "numeric parseFloat v = (case v of Str s \<Rightarrow> parseFloat s | Num n \<Rightarrow> n)"

definition clamped :: "(string \<Rightarrow> jsnum) \<Rightarrow> num_or_str \<Rightarrow> jsnum" where
  "clamped parseFloat v =
     Math_max (Fin 0)
       (Math_min (Fin 1)
          (if isNaN (numeric parseFloat v) then Fin 0 else numeric parseFloat v))"

definition pct :: "(string \<Rightarrow> jsnum) \<Rightarrow> num_or_str \<Rightarrow> jsnum" where
  "pct parseFloat v = Math_round (js_times (clamped parseFloat v) (Fin 100))"

definition getBarColor :: "jsnum \<Rightarrow> string" where
  "getBarColor p =
     (if js_ge p (Fin (3 / 4)) then ''bg-gain''
      else if js_ge p (Fin (1 / 2)) then ''bg-yellow-500''
      else ''bg-loss'')"

text \<open>
  What the component renders of its input: \<open>aria-valuenow\<close> and the label text are
  \<open>pct\<close>, the bar's colour class is \<open>getBarColor(clamped)\<close>.
\<close>

definition ConfidenceBar :: "(string \<Rightarrow> jsnum) \<Rightarrow> num_or_str \<Rightarrow> jsnum \<times> string" where
  "ConfidenceBar parseFloat v = (pct parseFloat v, getBarColor (clamped parseFloat v))"


section \<open>Positions table (components/PositionsTable.tsx)\<close>











text \<open>
  \<open>Array.prototype.sort\<close> with a comparator: a stable sort that puts \<open>a\<close> before \<open>b\<close>
  when the comparator is negative and keeps the order of elements it returns 0 for.
\<close>

fun insert_by :: "('a \<Rightarrow> 'a \<Rightarrow> int) \<Rightarrow> 'a \<Rightarrow> 'a list \<Rightarrow> 'a list" where
  "insert_by cmp x [] = [x]"
| "insert_by cmp x (y # ys) = (if cmp x y \<le> 0 then x # y # ys else y # insert_by cmp x ys)"

definition sort_by :: "('a \<Rightarrow> 'a \<Rightarrow> int) \<Rightarrow> 'a list \<Rightarrow> 'a list" where
  "sort_by cmp xs = foldr (insert_by cmp) xs []"

text \<open>
  Arrays live in a store, addressed by their index in it, so that a function's effect on
  the arrays it was handed can be stated. \<open>[...xs]\<close> allocates a fresh array with the
  elements of \<open>xs\<close>; \<open>.sort(cmp)\<close> sorts the array it is called on in place and returns
  that same array. A reference to an array is an address below the length of the store.
\<close>

type_synonym 'a store = "'a list list"







section \<open>Calendar dates and the Date object\<close>

text \<open>
  A date input's value is the empty string or a date written as a year of four or more
  digits, a month and a day (\<open>YYYY-MM-DD\<close>, \<open>YYYYY-MM-DD\<close>, ...), naming a date that
  exists in the (proleptic Gregorian) calendar, the year being at least 1. \<open>today\<close> is
  \<open>new Date().toISOString().slice(0, 10)\<close>, of the first form. \<open>parse_iso\<close> reads
  the form with a four-digit year, which is also the date-only form of the ECMAScript
  date-time format; \<open>parse_long_year\<close> reads the forms with a longer year, which
  has no leading zero.
\<close>

record date =
  year :: nat
  month :: nat
  day :: nat

definition digit :: "char \<Rightarrow> nat option" where
  "digit c =
     (let n = (of_char c :: nat) in if 48 \<le> n \<and> n \<le> 57 then Some (n - 48) else None)"

definition num2 :: "char \<Rightarrow> char \<Rightarrow> nat option" where
  "num2 c1 c2 =
     (case (digit c1, digit c2) of
        (Some a, Some b) \<Rightarrow> Some (10 * a + b)
      | _ \<Rightarrow> None)"

definition num4 :: "char \<Rightarrow> char \<Rightarrow> char \<Rightarrow> char \<Rightarrow> nat option" where
  "num4 c1 c2 c3 c4 =
     (case (digit c1, digit c2, digit c3, digit c4) of
        (Some a, Some b, Some c, Some d) \<Rightarrow> Some (1000 * a + 100 * b + 10 * c + d)
      | _ \<Rightarrow> None)"

definition leap :: "nat \<Rightarrow> bool" where
  "leap y = (y mod 4 = 0 \<and> (y mod 100 \<noteq> 0 \<or> y mod 400 = 0))"

definition days_in_month :: "nat \<Rightarrow> nat \<Rightarrow> nat" where
  "days_in_month y m =
     (if m = 2 then (if leap y then 29 else 28)
      else if m = 4 \<or> m = 6 \<or> m = 9 \<or> m = 11 then 30
      else 31)"

definition valid_date :: "nat \<Rightarrow> nat \<Rightarrow> nat \<Rightarrow> bool" where
  "valid_date y m d = (1 \<le> m \<and> m \<le> 12 \<and> 1 \<le> d \<and> d \<le> days_in_month y m)"

fun parse_iso :: "string \<Rightarrow> date option" where
  "parse_iso [y1, y2, y3, y4, s1, m1, m2, s2, d1, d2] =
     (if s1 = CHR ''-'' \<and> s2 = CHR ''-'' then
        (case (num4 y1 y2 y3 y4, num2 m1 m2, num2 d1 d2) of
           (Some y, Some m, Some d) \<Rightarrow>
             if valid_date y m d then Some \<lparr>year = y, month = m, day = d\<rparr> else None
         | _ \<Rightarrow> None)
      else None)"
| "parse_iso _ = None"

fun digits :: "string \<Rightarrow> nat \<Rightarrow> nat option" where
  "digits [] n = Some n"
| "digits (c # cs) n = (case digit c of None \<Rightarrow> None | Some a \<Rightarrow> digits cs (10 * n + a))"

definition parse_long_year :: "string \<Rightarrow> date option" where
  "parse_long_year s =
     (if length s < 11 \<or> hd s = CHR ''0'' then None
      else
        (case drop (length s - 6) s of
           [s1, m1, m2, s2, d1, d2] \<Rightarrow>
             if s1 = CHR ''-'' \<and> s2 = CHR ''-'' then
               (case (digits (take (length s - 6) s) 0, num2 m1 m2, num2 d1 d2) of
                  (Some y, Some m, Some d) \<Rightarrow>
                    if valid_date y m d then Some \<lparr>year = y, month = m, day = d\<rparr> else None
                | _ \<Rightarrow> None)
             else None
         | _ \<Rightarrow> None))"

text \<open>The date that a string names, in either form.\<close>

definition input_date :: "string \<Rightarrow> date option" where
  "input_date s = (case parse_iso s of Some d \<Rightarrow> Some d | None \<Rightarrow> parse_long_year s)"

text \<open>A value a date input can hold.\<close>

definition date_input_value :: "string \<Rightarrow> bool" where
  "date_input_value s =
     (s = [] \<or> (case input_date s of None \<Rightarrow> False | Some d \<Rightarrow> 1 \<le> year d))"

text \<open>Calendar order: by year, then month, then day.\<close>

definition date_less :: "date \<Rightarrow> date \<Rightarrow> bool" where
  "date_less a b =
     (year a < year b \<or>
      (year a = year b \<and> (month a < month b \<or> (month a = month b \<and> day a < day b))))"

text \<open>
  The number of a day, counted from 0000-01-01: the days of the years before, with
  their leap days, the days of the months before in the same year, and the day of the
  month.
\<close>

definition leap_years_before :: "nat \<Rightarrow> nat" where
  "leap_years_before y = (y + 3) div 4 - (y + 99) div 100 + (y + 399) div 400"

definition day_number :: "date \<Rightarrow> int" where
  "day_number d =
     int (365 * year d + leap_years_before (year d)
          + sum_list (map (days_in_month (year d)) [1..<month d])
          + day d) - 1"

definition epoch :: date where
  "epoch = \<lparr>year = 1970, month = 1, day = 1\<rparr>"

text \<open>
  \<open>new Date(s).getTime()\<close> for the value of a date input: the milliseconds from the
  epoch to midnight UTC of that day, and \<open>NaN\<close> when the time is outside the range of
  the Date object (8.64e15 ms either side of the epoch) or the string names no date.
  A string with a longer year is outside the ECMAScript format and is read by the
  engine's fallback parser; the model follows V8 with the time zone UTC, where
  \<open>new Date('200000-01-01').getTime()\<close> is 6249223180800000. The page passes no
  other strings to the Date object.
\<close>

definition TimeClip :: "int \<Rightarrow> jsnum" where
  "TimeClip ms = (if \<bar>ms\<bar> \<le> 8640000000000000 then Fin (of_int ms) else NaN)"

definition Date_getTime :: "string \<Rightarrow> jsnum" where
  "Date_getTime s =
     (case input_date s of
        None \<Rightarrow> NaN
      | Some d \<Rightarrow> TimeClip ((day_number d - day_number epoch) * 86400000))"


section \<open>Backtest page (pages/Backtest.tsx)\<close>

text \<open>
  The fields of \<open>BacktestProgressResponse\<close> that the page's handlers read, and the
  progress counters.
\<close>

record BacktestProgressResponse =
  backtest_run_id :: string
  status :: string
  current_day :: nat
  total_days :: nat
  errors :: "string list"

text \<open>
  The component's state: the form fields, the run state, and \<open>pollRef\<close>, here the id
  that the armed interval polls (\<open>None\<close> for \<open>null\<close>). \<open>initialCapital\<close> is
  \<open>Number(e.target.value)\<close> of a number input, or the initial 50000: a finite number
  (the value of a number input is a valid number or empty, and \<open>Number('')\<close> is 0).
\<close>

record page =
  startDate :: string
  endDate :: string
  initialCapital :: rat
  formError :: "string option"
  progress :: "BacktestProgressResponse option"
  loading :: bool
  error :: "string option"
  pollRef :: "string option"

definition initial_page :: page where
  "initial_page =
     \<lparr>startDate = [], endDate = [], initialCapital = 50000, formError = None,
      progress = None, loading = False, error = None, pollRef = None\<rparr>"

definition isRunning :: "page \<Rightarrow> bool" where
  "isRunning st =
     (case progress st of
        None \<Rightarrow> False
      | Some p \<Rightarrow> status p = ''RUNNING'' \<or> status p = ''PENDING'')"

text \<open>The submit button: \<open>disabled={loading || isRunning}\<close>.\<close>

definition submit_disabled :: "page \<Rightarrow> bool" where
  "submit_disabled st = (loading st \<or> isRunning st)"

text \<open>
  \<open>validate\<close> returns its verdict and sets \<open>formError\<close>; \<open>today\<close> is the value computed
  by the render whose handler runs. The products in \<open>1000 * 60 * 60 * 24 * 365\<close> are
  whole numbers far below \<open>2^53\<close>, hence exact.
\<close>

definition validate :: "string \<Rightarrow> page \<Rightarrow> page \<times> bool" where
  "validate today st =
     (if startDate st = [] \<or> endDate st = [] then
        (st\<lparr>formError := Some ''Please select both start and end dates''\<rparr>, False)
      else if \<not> js_str_less (startDate st) (endDate st) then
        (st\<lparr>formError := Some ''Start date must be before end date''\<rparr>, False)
      else if js_str_less today (endDate st) then
        (st\<lparr>formError := Some ''End date cannot be in the future''\<rparr>, False)
      else
        (let msRange = js_minus (Date_getTime (endDate st)) (Date_getTime (startDate st));
             yearRange = js_divide msRange (Fin (1000 * 60 * 60 * 24 * 365))
         in if js_gt yearRange (Fin 5) then
              (st\<lparr>formError := Some ''Date range cannot exceed 5 years''\<rparr>, False)
            else if initialCapital st \<le> 0 then
              (st\<lparr>formError := Some ''Initial capital must be positive''\<rparr>, False)
            else (st\<lparr>formError := None\<rparr>, True)))"

text \<open>The requests the page sends through the API client.\<close>

datatype request =
    TriggerBacktest string string rat
  | FetchBacktestProgress string

text \<open>
  \<open>handleSubmit\<close> up to its \<open>await\<close>: the new state and the requests sent. The two
  ways the awaited \<open>triggerBacktest\<close> settles follow, each ending with the
  \<open>finally\<close> block; \<open>startPolling\<close> arms the interval for the run's id.
\<close>

definition handleSubmit :: "string \<Rightarrow> page \<Rightarrow> page \<times> request list" where
  "handleSubmit today st =
     (let (st1, valid) = validate today st in
      if \<not> valid then (st1, [])
      else (st1\<lparr>loading := True, error := None, progress := None\<rparr>,
            [TriggerBacktest (startDate st1) (endDate st1) (initialCapital st1)]))"

definition startPolling :: "string \<Rightarrow> page \<Rightarrow> page" where
  "startPolling run_id st = st\<lparr>pollRef := Some run_id\<rparr>"

definition stopPolling :: "page \<Rightarrow> page" where
  "stopPolling st = st\<lparr>pollRef := None\<rparr>"

definition handleSubmit_resolved :: "BacktestProgressResponse \<Rightarrow> page \<Rightarrow> page" where
  "handleSubmit_resolved result st =
     (startPolling (backtest_run_id result) (st\<lparr>progress := Some result\<rparr>))\<lparr>loading := False\<rparr>"

definition handleSubmit_rejected :: "string \<Rightarrow> page \<Rightarrow> page" where
  "handleSubmit_rejected msg st = st\<lparr>error := Some msg, loading := False\<rparr>"

text \<open>
  The interval's callback: the request on a tick, and the two ways it settles. The
  callback of an interval set for one run stores whatever answer it receives and, on a
  final status, clears the interval that \<open>pollRef\<close> holds at that moment.
\<close>

definition poll_tick :: "page \<Rightarrow> request list" where
  "poll_tick st = (case pollRef st of None \<Rightarrow> [] | Some run_id \<Rightarrow> [FetchBacktestProgress run_id])"

definition poll_resolved :: "BacktestProgressResponse \<Rightarrow> page \<Rightarrow> page" where
  "poll_resolved result st =
     (let st1 = st\<lparr>progress := Some result\<rparr> in
      if status result \<noteq> ''RUNNING'' \<and> status result \<noteq> ''PENDING'' then stopPolling st1
      else st1)"

text \<open>
  The browser's constraint validation, which runs on a submission before the form's
  \<open>submit\<close> event is fired. The date inputs carry \<open>max={today}\<close>: a field holding a
  date after today is invalid (an empty field is not, no field being \<open>required\<close>). The
  number input carries \<open>min={1}\<close> and \<open>step={1000}\<close> and shows \<open>initialCapital\<close>: it
  is valid when the number is at least 1 and a whole number of steps above the minimum.
\<close>

definition max_ok :: "string \<Rightarrow> string \<Rightarrow> bool" where
  "max_ok today v =
     (case (input_date v, input_date today) of
        (Some d, Some t) \<Rightarrow> \<not> date_less t d
      | _ \<Rightarrow> True)"

definition step_ok :: "rat \<Rightarrow> bool" where
  "step_ok c = (1 \<le> c \<and> of_int \<lfloor>(c - 1) / 1000\<rfloor> * 1000 = c - 1)"

definition constraints_ok :: "string \<Rightarrow> page \<Rightarrow> bool" where
  "constraints_ok today st =
     (max_ok today (startDate st) \<and> max_ok today (endDate st) \<and> step_ok (initialCapital st))"

text \<open>
  What can happen to the page. A submission of the form (a click on the submit button,
  or Enter in a field) reaches \<open>handleSubmit\<close> only when the submit button is not
  disabled and the fields satisfy their constraints. An answer names the run it is
  about; a failed poll names the run that was asked for.
\<close>

datatype event =
    SetStartDate string
  | SetEndDate string
  | SetInitialCapital rat
  | Submit string
  | TriggerResolved BacktestProgressResponse
  | TriggerRejected string
  | Tick
  | PollResolved BacktestProgressResponse
  | PollRejected string

fun step :: "page \<Rightarrow> event \<Rightarrow> page \<times> request list" where
  "step st (SetStartDate s) = (st\<lparr>startDate := s\<rparr>, [])"
| "step st (SetEndDate s) = (st\<lparr>endDate := s\<rparr>, [])"
| "step st (SetInitialCapital c) = (st\<lparr>initialCapital := c\<rparr>, [])"
| "step st (Submit today) =
     (if submit_disabled st \<or> \<not> constraints_ok today st then (st, [])
      else handleSubmit today st)"
| "step st (TriggerResolved result) = (handleSubmit_resolved result st, [])"
| "step st (TriggerRejected msg) = (handleSubmit_rejected msg st, [])"
| "step st Tick = (st, poll_tick st)"
| "step st (PollResolved result) = (poll_resolved result st, [])"
| "step st (PollRejected run_id) = (st, [])"

definition is_trigger :: "request \<Rightarrow> bool" where
  "is_trigger r = (case r of TriggerBacktest _ _ _ \<Rightarrow> True | _ \<Rightarrow> False)"

text \<open>
  The page together with the requests it has sent and that are not answered yet. An
  answer can arrive only for a request in flight, which it takes out: a trigger answer for
  a trigger request, a poll answer about a run for a poll request for that run. Answers
  arrive in any order. The user enters dates through the date inputs, and \<open>today\<close> has a
  four-digit year.
\<close>

record browser =
  view :: page
  in_flight :: "request list"

definition initial_browser :: browser where
  "initial_browser = \<lparr>view = initial_page, in_flight = []\<rparr>"

fun answered :: "request list \<Rightarrow> event \<Rightarrow> request option" where
  "answered rs (TriggerResolved result) = find is_trigger rs"
| "answered rs (TriggerRejected msg) = find is_trigger rs"
| "answered rs (PollResolved result) =
     find (\<lambda>q. q = FetchBacktestProgress (backtest_run_id result)) rs"
| "answered rs (PollRejected run_id) = find (\<lambda>q. q = FetchBacktestProgress run_id) rs"
| "answered rs _ = None"

fun possible :: "browser \<Rightarrow> event \<Rightarrow> bool" where
  "possible w (SetStartDate s) = date_input_value s"
| "possible w (SetEndDate s) = date_input_value s"
| "possible w (SetInitialCapital c) = True"
| "possible w (Submit today) = (parse_iso today \<noteq> None)"
| "possible w Tick = (pollRef (view w) \<noteq> None)"
| "possible w ev = (answered (in_flight w) ev \<noteq> None)"

definition browser_step :: "browser \<Rightarrow> event \<Rightarrow> browser" where
  "browser_step w ev =
     (let (st, reqs) = step (view w) ev;
          rest = (case answered (in_flight w) ev of
                    None \<Rightarrow> in_flight w
                  | Some q \<Rightarrow> remove1 q (in_flight w))
      in \<lparr>view = st, in_flight = rest @ reqs\<rparr>)"

fun run_events :: "browser \<Rightarrow> event list \<Rightarrow> browser" where
  "run_events w [] = w"
| "run_events w (ev # evs) = run_events (browser_step w ev) evs"

fun all_possible :: "browser \<Rightarrow> event list \<Rightarrow> bool" where
  "all_possible w [] = True"
| "all_possible w (ev # evs) = (possible w ev \<and> all_possible (browser_step w ev) evs)"

text \<open>The trigger requests sent over a sequence of events.\<close>

fun triggers_sent :: "browser \<Rightarrow> event list \<Rightarrow> request list" where
  "triggers_sent w [] = []"
| "triggers_sent w (ev # evs) =
     filter is_trigger (snd (step (view w) ev)) @ triggers_sent (browser_step w ev) evs"

text \<open>
  The status of a run as the backend last reported it to the page, over a sequence of
  events: the status in the latest answer about that run.
\<close>

fun reported :: "event \<Rightarrow> (string \<times> string) option" where
  "reported (TriggerResolved result) = Some (backtest_run_id result, status result)"
| "reported (PollResolved result) = Some (backtest_run_id result, status result)"
| "reported _ = None"

definition last_reported :: "event list \<Rightarrow> string \<Rightarrow> string option" where
  "last_reported evs run_id =
     (case filter (\<lambda>r. fst r = run_id) (List.map_filter reported evs) of
        [] \<Rightarrow> None
      | r # rs \<Rightarrow> Some (snd (last (r # rs))))"

text \<open>
  The claim's reading of a span of at most \<open>n\<close> years: the end date is on or before the
  \<open>n\<close>-th anniversary of the start date.
\<close>

definition span_at_most_years :: "nat \<Rightarrow> date \<Rightarrow> date \<Rightarrow> bool" where
  "span_at_most_years n s e =
     (\<not> date_less \<lparr>year = year s + n, month = month s, day = day s\<rparr> e)"

text \<open>
  Sample states: the form filled in for the year 2023, and the form filled in for the
  five years from 2019-01-01 to 2024-01-01, each with a capital of 50001 (a whole number
  of steps above the minimum). Sample answers: the first run reported running and
  completed, a second run reported running.
\<close>

definition form_2023 :: page where
  "form_2023 =
     initial_page\<lparr>startDate := ''2023-01-01'', endDate := ''2023-12-31'',
       initialCapital := 50001\<rparr>"

definition form_five_years :: page where
  "form_five_years =
     initial_page\<lparr>startDate := ''2019-01-01'', endDate := ''2024-01-01'',
       initialCapital := 50001\<rparr>"

text \<open>A form whose start date has a five-digit year.\<close>

definition form_long_year :: page where
  "form_long_year =
     initial_page\<lparr>startDate := ''10000-01-01'', endDate := ''2023-12-31'',
       initialCapital := 50001\<rparr>"

definition run_1_running :: BacktestProgressResponse where
  "run_1_running =
     \<lparr>backtest_run_id = ''run-1'', status = ''RUNNING'', current_day = 0, total_days = 250,
      errors = []\<rparr>"

definition run_1_completed :: BacktestProgressResponse where
  "run_1_completed =
     \<lparr>backtest_run_id = ''run-1'', status = ''COMPLETED'', current_day = 250, total_days = 250,
      errors = []\<rparr>"

definition run_2_running :: BacktestProgressResponse where
  "run_2_running =
     \<lparr>backtest_run_id = ''run-2'', status = ''RUNNING'', current_day = 0, total_days = 250,
      errors = []\<rparr>"

text \<open>
  A sequence of events: the form is filled in and submitted; the first run is reported
  running and is polled twice before any answer arrives; the first answer reports it
  completed; the form is submitted again and the second run is reported running; then
  the second answer about the first run arrives.
\<close>

definition late_poll_answer :: "event list" where
  "late_poll_answer =
     [SetStartDate ''2023-01-01'', SetEndDate ''2023-12-31'', SetInitialCapital 50001,
      Submit ''2024-06-01'', TriggerResolved run_1_running, Tick, Tick,
      PollResolved run_1_completed, Submit ''2024-06-01'', TriggerResolved run_2_running,
      PollResolved run_1_completed]"


section \<open>Memory Retrieval (spec, sections 3 and 4.3)\<close>

text \<open>
  Modelled from the spec: the memory service (\<open>services/memory.py\<close> in the
  implementation plan) is not among the sources. The definitions of this section follow
  section 4.3 of the spec: a ranked lookup of past decision reports in three tiers,
  scoped to the run's visibility partition, de-duplicated by report id, capped at ten
  and reduced to summaries.
\<close>

datatype action = BUY | SELL | HOLD

text \<open>
  Modelled from the spec: a DecisionReport of section 3, with the fields the retrieval
  reads; \<open>rsi\<close> and \<open>macd_cross_up\<close> stand for the stored indicator snapshot,
  \<open>created\<close> for the report's date.
\<close>

record DecisionReport =
  report_id :: nat
  report_instrument :: string
  report_sector :: string
  report_action :: action
  report_confidence :: rat
  reasoning :: string
  outcome_pnl :: "rat option"
  created :: nat
  rsi :: rat
  macd_cross_up :: bool
  is_backtest :: bool
  report_backtest_run :: "string option"

text \<open>
  Modelled from the spec: the visibility partition of a run, live or a single backtest
  run's own history. A live run sees the untagged rows; a backtest run sees the rows
  tagged with its own id.
\<close>

datatype scope = Live | Backtest string

fun visible :: "scope \<Rightarrow> DecisionReport \<Rightarrow> bool" where
  "visible Live r = (\<not> is_backtest r)"
| "visible (Backtest run) r = (is_backtest r \<and> report_backtest_run r = Some run)"

text \<open>Modelled from the spec: the candidate the context is built for.\<close>

record candidate =
  cand_instrument :: string
  cand_sector :: string
  cand_action :: action
  cand_rsi :: rat
  cand_macd_cross_up :: bool

text \<open>The sign of a comparison of two numbers, as a comparator returns it.\<close>

definition compare_rat :: "rat \<Rightarrow> rat \<Rightarrow> int" where
  "compare_rat a b = (if a < b then - 1 else if b < a then 1 else 0)"

definition outcome_of :: "DecisionReport \<Rightarrow> rat" where
  "outcome_of r = (case outcome_pnl r of None \<Rightarrow> 0 | Some x \<Rightarrow> x)"

text \<open>
  Modelled from the spec: tier 1, up to 10 most recent reports for the same
  instrument.
\<close>

definition tier1 :: "scope \<Rightarrow> DecisionReport list \<Rightarrow> candidate \<Rightarrow> DecisionReport list" where
  "tier1 sc store c =
     take 10 (sort_by (\<lambda>a b. compare_rat (of_nat (created b)) (of_nat (created a)))
       (filter (\<lambda>r. visible sc r \<and> report_instrument r = cand_instrument c) store))"

text \<open>
  Modelled from the spec: tier 2, up to 5 reports for other instruments of the same
  sector and action, with an assessed outcome, best outcome first for a BUY candidate
  and worst first for a SELL candidate.
\<close>

definition tier2 :: "scope \<Rightarrow> DecisionReport list \<Rightarrow> candidate \<Rightarrow> DecisionReport list" where
  "tier2 sc store c =
     take 5 (sort_by
        (\<lambda>a b. if cand_action c = SELL then compare_rat (outcome_of a) (outcome_of b)
               else compare_rat (outcome_of b) (outcome_of a))
       (filter (\<lambda>r. visible sc r \<and> report_instrument r \<noteq> cand_instrument c \<and>
                    report_sector r = cand_sector c \<and> report_action r = cand_action c \<and>
                    outcome_pnl r \<noteq> None) store))"

text \<open>
  Modelled from the spec: tier 3, the reports whose stored indicator snapshot is within
  the tolerance band of the candidate's: RSI within the tolerance, same MACD-cross
  direction.
\<close>

definition tier3 ::
  "rat \<Rightarrow> scope \<Rightarrow> DecisionReport list \<Rightarrow> candidate \<Rightarrow> DecisionReport list" where
  "tier3 tolerance sc store c =
     filter (\<lambda>r. visible sc r \<and> \<bar>rsi r - cand_rsi c\<bar> \<le> tolerance \<and>
                  macd_cross_up r = cand_macd_cross_up c) store"

fun dedup_by_id :: "nat list \<Rightarrow> DecisionReport list \<Rightarrow> DecisionReport list" where
  "dedup_by_id seen [] = []"
| "dedup_by_id seen (r # rs) =
     (if report_id r \<in> set seen then dedup_by_id seen rs
      else r # dedup_by_id (report_id r # seen) rs)"

text \<open>
  Modelled from the spec: the union of the tiers, de-duplicated by report id and capped
  at 10 items.
\<close>

definition retrieve_reports ::
  "rat \<Rightarrow> scope \<Rightarrow> DecisionReport list \<Rightarrow> candidate \<Rightarrow> DecisionReport list" where
  "retrieve_reports tolerance sc store c =
     take 10 (dedup_by_id []
       (tier1 sc store c @ tier2 sc store c @ tier3 tolerance sc store c))"

text \<open>
  Modelled from the spec: the compact summary (instrument, action, confidence,
  truncated reasoning, outcome, date) embedded in the oracle's context package.
\<close>

record memory_item =
  item_instrument :: string
  item_action :: action
  item_confidence :: rat
  item_reasoning :: string
  item_outcome :: "rat option"
  item_date :: nat

definition summarise :: "DecisionReport \<Rightarrow> memory_item" where
  "summarise r =
     \<lparr>item_instrument = report_instrument r, item_action = report_action r,
      item_confidence = report_confidence r, item_reasoning = take 200 (reasoning r),
      item_outcome = outcome_pnl r, item_date = created r\<rparr>"

text \<open>
  Modelled from the spec: Memory Retrieval, giving each summary with the id of the
  report it was made from.
\<close>

definition memory_retrieval ::
  "rat \<Rightarrow> scope \<Rightarrow> DecisionReport list \<Rightarrow> candidate \<Rightarrow> (nat \<times> memory_item) list" where
  "memory_retrieval tolerance sc store c =
     map (\<lambda>r. (report_id r, summarise r)) (retrieve_reports tolerance sc store c)"

text \<open>Sample data: a live report and two reports of backtest runs, and a candidate.\<close>

definition sample_report :: "nat \<Rightarrow> bool \<Rightarrow> string option \<Rightarrow> DecisionReport" where
  "sample_report i bt run =
     \<lparr>report_id = i, report_instrument = ''ASML.AS'', report_sector = ''Technology'',
      report_action = BUY, report_confidence = 4 / 5, reasoning = ''RSI oversold at 28'',
      outcome_pnl = Some (3 / 100), created = 20250115 + i, rsi = 28, macd_cross_up = True,
      is_backtest = bt, report_backtest_run = run\<rparr>"

definition sample_store :: "DecisionReport list" where
  "sample_store =
     [sample_report 1 False None, sample_report 2 True (Some ''run-A''),
      sample_report 3 True (Some ''run-B'')]"

definition sample_candidate :: candidate where
  "sample_candidate =
     \<lparr>cand_instrument = ''ASML.AS'', cand_sector = ''Technology'', cand_action = BUY,
      cand_rsi = 30, cand_macd_cross_up = True\<rparr>"


section \<open>Risk Engine (spec, section 4.2)\<close>

text \<open>
  Modelled from the spec: the risk manager (\<open>services/risk_manager.py\<close> in the
  implementation plan) is not among the sources. The definitions of this section follow
  the algorithm of section 4.2 of the spec, step by step. Allocations and
  \<open>max_position_pct\<close> are fractions of the portfolio value (5% is \<open>1 / 20\<close>); money is
  rational.
\<close>

record proposal =
  prop_instrument :: string
  prop_action :: action
  prop_confidence :: rat
  suggested_allocation :: rat
  prop_price :: rat
  prop_currency :: string

record holding =
  held_instrument :: string
  held_quantity :: rat
  held_price :: rat
  held_currency :: string

record portfolio =
  cash :: rat
  open_positions :: "holding list"
  portfolio_value :: rat

record risk_config =
  max_positions :: nat
  max_position_pct :: rat
  min_trade_value :: rat
  exchange_rate :: "string \<Rightarrow> rat"

datatype reason_code =
  not_held | max_positions_reached | below_minimum | insufficient_cash | internal_error

record trade =
  trade_instrument :: string
  trade_side :: action
  trade_quantity :: rat
  trade_value :: rat

record rejection =
  rejected_proposal :: proposal
  reason :: reason_code
  reason_text :: string

text \<open>
  Modelled from the spec: what the engine carries from one proposal to the next within a
  batch: the available cash, the positions still held, the open-position count, and the
  two output lists.
\<close>

record risk_state =
  available_cash :: rat
  still_held :: "holding list"
  position_count :: nat
  approved :: "trade list"
  rejected :: "rejection list"

definition reject :: "proposal \<Rightarrow> reason_code \<Rightarrow> string \<Rightarrow> risk_state \<Rightarrow> risk_state" where
  "reject p code txt st =
     st\<lparr>rejected := rejected st @ [\<lparr>rejected_proposal = p, reason = code, reason_text = txt\<rparr>]\<rparr>"

text \<open>Modelled from the spec: step 1, a figure converted to the base currency.\<close>

definition to_base :: "risk_config \<Rightarrow> string \<Rightarrow> rat \<Rightarrow> rat" where
  "to_base cfg cur amount = amount * exchange_rate cfg cur"

text \<open>
  Modelled from the spec: step 3, a SELL is approved unconditionally if the instrument
  is currently held, otherwise rejected (\<open>not_held\<close>). An approved SELL sells the
  position: it frees its value as cash and its slot.
\<close>

definition process_sell :: "risk_config \<Rightarrow> risk_state \<Rightarrow> proposal \<Rightarrow> risk_state" where
  "process_sell cfg st p =
     (case find (\<lambda>h. held_instrument h = prop_instrument p) (still_held st) of
        None \<Rightarrow> reject p not_held ''instrument is not held'' st
      | Some h \<Rightarrow>
          st\<lparr>available_cash :=
                available_cash st + to_base cfg (held_currency h) (held_quantity h * held_price h),
             still_held := remove1 h (still_held st),
             position_count := position_count st - 1,
             approved := approved st @
                [\<lparr>trade_instrument = prop_instrument p, trade_side = SELL,
                  trade_quantity = held_quantity h,
                  trade_value = to_base cfg (held_currency h) (held_quantity h * held_price h)\<rparr>]\<rparr>)"

text \<open>
  Modelled from the spec: step 5, one BUY. Rejected if the open-position count is at
  \<open>max_positions\<close>; the target value is \<open>min(suggested_allocation, max_position_pct)\<close>
  times the portfolio value, shrunk to the available cash if it exceeds it; rejected if
  the resulting value is below \<open>min_trade_value\<close> or no cash remains; otherwise approved,
  the cash decremented and the position count incremented. A proposal without a positive
  price has no quantity: an internal error, which rejects that proposal.
\<close>

definition process_buy :: "risk_config \<Rightarrow> rat \<Rightarrow> risk_state \<Rightarrow> proposal \<Rightarrow> risk_state" where
  "process_buy cfg pv st p =
     (if max_positions cfg \<le> position_count st then
        reject p max_positions_reached ''maximum number of positions reached'' st
      else if to_base cfg (prop_currency p) (prop_price p) \<le> 0 then
        reject p internal_error ''proposal has no positive price'' st
      else
        (let target = min (suggested_allocation p) (max_position_pct cfg) * pv;
             val = (if available_cash st < target then available_cash st else target)
         in if val < min_trade_value cfg then
              reject p below_minimum ''trade value below the minimum'' st
            else if available_cash st \<le> 0 then
              reject p insufficient_cash ''no cash remains'' st
            else
              st\<lparr>available_cash := available_cash st - val,
                 position_count := position_count st + 1,
                 approved := approved st @
                   [\<lparr>trade_instrument = prop_instrument p, trade_side = BUY,
                     trade_quantity = val / to_base cfg (prop_currency p) (prop_price p),
                     trade_value = val\<rparr>]\<rparr>))"

text \<open>
  Modelled from the spec: steps 2 to 6. The proposals are partitioned into SELL and BUY;
  all SELLs are processed first; the BUYs are sorted by descending confidence (stable)
  and processed in that order; both lists are returned.
\<close>

definition initial_state :: "portfolio \<Rightarrow> risk_state" where
  "initial_state pf =
     \<lparr>available_cash = cash pf, still_held = open_positions pf,
      position_count = length (open_positions pf), approved = [], rejected = []\<rparr>"

definition sells_of :: "proposal list \<Rightarrow> proposal list" where
  "sells_of ps = filter (\<lambda>p. prop_action p = SELL) ps"

definition buys_of :: "proposal list \<Rightarrow> proposal list" where
  "buys_of ps =
     sort_by (\<lambda>a b. compare_rat (prop_confidence b) (prop_confidence a))
       (filter (\<lambda>p. prop_action p = BUY) ps)"

definition after_sells :: "risk_config \<Rightarrow> portfolio \<Rightarrow> proposal list \<Rightarrow> risk_state" where
  "after_sells cfg pf ps = foldl (process_sell cfg) (initial_state pf) (sells_of ps)"

definition risk_validate ::
  "risk_config \<Rightarrow> portfolio \<Rightarrow> proposal list \<Rightarrow> trade list \<times> rejection list" where
  "risk_validate cfg pf ps =
     (let st = foldl (process_buy cfg (portfolio_value pf)) (after_sells cfg pf ps) (buys_of ps)
      in (approved st, rejected st))"

text \<open>The sum of the values of the approved trades of one side.\<close>

definition side_total :: "action \<Rightarrow> trade list \<Rightarrow> rat" where
  "side_total side ts = sum_list (map trade_value (filter (\<lambda>t. trade_side t = side) ts))"

text \<open>
  The notions of the claim, on the engine's inputs and outputs. The value of a held
  position in the base currency; the value of the held positions that the SELL proposals
  of a batch name; and the value of the position in an instrument once the approved
  trades are settled at their trade values: what was held, less what is sold, plus what
  is bought.
\<close>

definition holding_value :: "risk_config \<Rightarrow> holding \<Rightarrow> rat" where
  "holding_value cfg h = to_base cfg (held_currency h) (held_quantity h * held_price h)"

definition sale_proceeds :: "risk_config \<Rightarrow> portfolio \<Rightarrow> proposal list \<Rightarrow> rat" where
  "sale_proceeds cfg pf ps =
     sum_list (map (holding_value cfg)
       (filter (\<lambda>h. held_instrument h \<in> prop_instrument ` set (sells_of ps))
          (open_positions pf)))"

definition traded :: "action \<Rightarrow> string \<Rightarrow> trade list \<Rightarrow> rat" where
  "traded side i ts =
     sum_list (map trade_value (filter (\<lambda>t. trade_instrument t = i \<and> trade_side t = side) ts))"

definition position_value :: "risk_config \<Rightarrow> portfolio \<Rightarrow> trade list \<Rightarrow> string \<Rightarrow> rat" where
  "position_value cfg pf ts i =
     sum_list (map (holding_value cfg) (filter (\<lambda>h. held_instrument h = i) (open_positions pf)))
       - traded SELL i ts + traded BUY i ts"

text \<open>What a proposal, a trade and a rejection are about: the instrument and the side.\<close>

definition proposal_key :: "proposal \<Rightarrow> string \<times> action" where
  "proposal_key p = (prop_instrument p, prop_action p)"

definition trade_key :: "trade \<Rightarrow> string \<times> action" where
  "trade_key t = (trade_instrument t, trade_side t)"

definition rejection_key :: "rejection \<Rightarrow> string \<times> action" where
  "rejection_key r = proposal_key (rejected_proposal r)"

text \<open>
  Sample data: a portfolio fully invested in one position, and a batch that sells it and
  buys another instrument; a portfolio that holds ASML.AS for 400, with a batch that buys
  more of it, and a batch that names a new instrument in two BUY proposals.
\<close>

definition sample_config :: risk_config where
  "sample_config =
     \<lparr>max_positions = 20, max_position_pct = 1 / 20, min_trade_value = 100,
      exchange_rate = (\<lambda>cur. 1)\<rparr>"

definition invested_portfolio :: portfolio where
  "invested_portfolio =
     \<lparr>cash = 0,
      open_positions = [\<lparr>held_instrument = ''SAP.DE'', held_quantity = 100, held_price = 100,
                         held_currency = ''EUR''\<rparr>],
      portfolio_value = 10000\<rparr>"

definition sample_batch :: "proposal list" where
  "sample_batch =
     [\<lparr>prop_instrument = ''ASML.AS'', prop_action = BUY, prop_confidence = 4 / 5,
       suggested_allocation = 2 / 25, prop_price = 50, prop_currency = ''EUR''\<rparr>,
      \<lparr>prop_instrument = ''SAP.DE'', prop_action = SELL, prop_confidence = 7 / 10,
       suggested_allocation = 0, prop_price = 100, prop_currency = ''EUR''\<rparr>]"



definition holding_portfolio :: portfolio where
  "holding_portfolio =
     \<lparr>cash = 9600,
      open_positions = [\<lparr>held_instrument = ''ASML.AS'', held_quantity = 8, held_price = 50,
                         held_currency = ''EUR''\<rparr>],
      portfolio_value = 10000\<rparr>"

definition buy_more_batch :: "proposal list" where
  "buy_more_batch =
     [\<lparr>prop_instrument = ''ASML.AS'', prop_action = BUY, prop_confidence = 4 / 5,
       suggested_allocation = 2 / 25, prop_price = 50, prop_currency = ''EUR''\<rparr>]"

definition buy_twice_batch :: "proposal list" where
  "buy_twice_batch =
     [\<lparr>prop_instrument = ''SAP.DE'', prop_action = BUY, prop_confidence = 4 / 5,
       suggested_allocation = 2 / 25, prop_price = 100, prop_currency = ''EUR''\<rparr>,
      \<lparr>prop_instrument = ''SAP.DE'', prop_action = BUY, prop_confidence = 7 / 10,
       suggested_allocation = 2 / 25, prop_price = 100, prop_currency = ''EUR''\<rparr>]"

text \<open>
  Invariants of the two phases, for the proofs. The SELL phase buys nothing and its cash
  is the starting cash plus the value of the SELLs approved so far. The BUY phase keeps
  the value of the approved SELLs; the value of the approved BUYs and the available cash
  add up to the cash it started with; and once anything is bought the available cash is
  not negative. Each approved BUY is within the cap. Only an instrument held at the start
  is sold. Every proposal processed adds one verdict, about its instrument and side.
\<close>

definition sell_inv :: "rat \<Rightarrow> risk_state \<Rightarrow> bool" where
  "sell_inv c0 st =
     (side_total BUY (approved st) = 0 \<and>
      available_cash st = c0 + side_total SELL (approved st))"

definition cash_inv :: "rat \<Rightarrow> rat \<Rightarrow> risk_state \<Rightarrow> bool" where
  "cash_inv c1 s1 st =
     (side_total SELL (approved st) = s1 \<and>
      side_total BUY (approved st) + available_cash st = c1 \<and>
      (side_total BUY (approved st) = 0 \<or> 0 \<le> available_cash st))"

definition cap_inv :: "risk_config \<Rightarrow> rat \<Rightarrow> risk_state \<Rightarrow> bool" where
  "cap_inv cfg pv st =
     (\<forall>t \<in> set (approved st). trade_side t = BUY \<longrightarrow>
          trade_value t \<le> max_position_pct cfg * pv)"

definition sold_inv :: "portfolio \<Rightarrow> risk_state \<Rightarrow> bool" where
  "sold_inv pf st =
     (set (still_held st) \<subseteq> set (open_positions pf) \<and>
      (\<forall>t \<in> set (approved st). trade_side t = SELL \<longrightarrow>
           trade_instrument t \<in> held_instrument ` set (open_positions pf)))"

definition verdicts :: "risk_state \<Rightarrow> (string \<times> action) multiset" where
  "verdicts st = mset (map trade_key (approved st)) + mset (map rejection_key (rejected st))"


section \<open>Properties of rounding to a double\<close>

text \<open>
  The exponent found by \<open>binary_exponent\<close> is the binary exponent: \<open>x\<close> lies between
  \<open>2 ^ e\<close> and \<open>2 ^ (e + 1)\<close>. Rounding leaves the whole numbers below \<open>2^53\<close> in
  place, does not cross them, commutes with negation, and moves a number by at most
  half a unit in its last place.
\<close>

lemma binary_exponent_le:
  assumes "0 < x"
  shows "2 powi (binary_exponent x) \<le> x"
proof -
  obtain a b where q: "quotient_of x = (a, b)"
    by (cases "quotient_of x")
  then have b: "0 < b" and x: "x = of_int a / of_int b"
    using quotient_of_denom_pos quotient_of_div by blast+
  with assms have a: "0 < a"
    by (simp add: zero_less_divide_iff)
  define e0 where "e0 = bitlen a - bitlen b"
  have la: "1 \<le> bitlen a" and lb: "1 \<le> bitlen b"
    using a b by (simp_all add: bitlen_alt_def)
  have lo: "(2::rat) ^ nat (bitlen a - 1) \<le> of_int a"
  proof -
    have "(2::int) ^ nat (bitlen a - 1) \<le> a"
      using bitlen_bounds [OF a] by simp
    then have "(of_int ((2::int) ^ nat (bitlen a - 1)) :: rat) \<le> of_int a"
      by (simp only: of_int_le_iff)
    then show ?thesis by simp
  qed
  have hi: "(of_int b :: rat) \<le> 2 ^ nat (bitlen b)"
  proof -
    have "b \<le> (2::int) ^ nat (bitlen b)"
      using bitlen_bounds [OF b] by simp
    then have "(of_int b :: rat) \<le> of_int ((2::int) ^ nat (bitlen b))"
      by (simp only: of_int_le_iff)
    then show ?thesis by simp
  qed
  have "(2::rat) powi (e0 - 1) = 2 powi (bitlen a - 1) / 2 powi (bitlen b)"
    unfolding e0_def using power_int_diff [of "2::rat" "bitlen a - 1" "bitlen b"]
    by (simp add: algebra_simps)
  also have "\<dots> = 2 ^ nat (bitlen a - 1) / 2 ^ nat (bitlen b)"
    using la lb by (simp add: power_int_def)
  also have "\<dots> \<le> of_int a / of_int b"
    using lo hi b a by (intro frac_le) simp_all
  finally have low: "(2::rat) powi (e0 - 1) \<le> x"
    using x by simp
  show ?thesis
    using low q unfolding binary_exponent_def e0_def Let_def by simp
qed


lemma binary_exponent_upper:
  assumes "0 < x"
  shows "x < 2 powi (binary_exponent x + 1)"
proof -
  obtain a b where q: "quotient_of x = (a, b)"
    by (cases "quotient_of x")
  then have b: "0 < b" and x: "x = of_int a / of_int b"
    using quotient_of_denom_pos quotient_of_div by blast+
  with assms have a: "0 < a"
    by (simp add: zero_less_divide_iff)
  define e0 where "e0 = bitlen a - bitlen b"
  have la: "1 \<le> bitlen a" and lb: "1 \<le> bitlen b"
    using a b by (simp_all add: bitlen_alt_def)
  have hi: "(of_int a :: rat) < 2 ^ nat (bitlen a)"
  proof -
    have "a < (2::int) ^ nat (bitlen a)"
      using bitlen_bounds [OF a] by simp
    then have "(of_int a :: rat) < of_int ((2::int) ^ nat (bitlen a))"
      by (simp only: of_int_less_iff)
    then show ?thesis by simp
  qed
  have lo: "(2::rat) ^ nat (bitlen b - 1) \<le> of_int b"
  proof -
    have "(2::int) ^ nat (bitlen b - 1) \<le> b"
      using bitlen_bounds [OF b] by simp
    then have "(of_int ((2::int) ^ nat (bitlen b - 1)) :: rat) \<le> of_int b"
      by (simp only: of_int_le_iff)
    then show ?thesis by simp
  qed
  have "x < 2 ^ nat (bitlen a) / 2 ^ nat (bitlen b - 1)"
    unfolding x using hi lo a by (intro frac_less) simp_all
  also have "\<dots> = 2 powi (bitlen a) / 2 powi (bitlen b - 1)"
    using la lb by (simp add: power_int_def)
  also have "\<dots> = 2 powi (e0 + 1)"
    unfolding e0_def using power_int_diff [of "2::rat" "bitlen a" "bitlen b - 1"]
    by (simp add: algebra_simps)
  finally have up: "x < 2 powi (e0 + 1)" .
  show ?thesis
  proof (cases "2 powi e0 \<le> x")
    case True
    then have "binary_exponent x = e0"
      using q by (simp add: binary_exponent_def e0_def Let_def)
    with up show ?thesis by simp
  next
    case False
    then have "binary_exponent x = e0 - 1"
      using q by (simp add: binary_exponent_def e0_def Let_def)
    with False show ?thesis by simp
  qed
qed


lemma round_half_even_of_int: "round_half_even (of_int n) = n"
  by (simp add: round_half_even_def)

lemma round_half_even_cases:
  "round_half_even y = \<lfloor>y\<rfloor> \<and> y - of_int \<lfloor>y\<rfloor> \<le> 1 / 2
   \<or> round_half_even y = \<lfloor>y\<rfloor> + 1 \<and> 1 / 2 \<le> y - of_int \<lfloor>y\<rfloor>"
  by (auto simp: round_half_even_def Let_def)

lemma round_half_even_le:
  assumes "y \<le> of_int N"
  shows "round_half_even y \<le> N"
proof (cases "y = of_int N")
  case True
  then show ?thesis by (simp add: round_half_even_of_int)
next
  case False
  with assms have "y < of_int N" by simp
  then have "\<lfloor>y\<rfloor> < N" by (simp add: floor_less_iff)
  then show ?thesis
    using round_half_even_cases [of y] by linarith
qed

lemma round_half_even_ge:
  assumes "of_int N \<le> y"
  shows "N \<le> round_half_even y"
proof -
  from assms have "N \<le> \<lfloor>y\<rfloor>" by (simp add: le_floor_iff)
  then show ?thesis
    using round_half_even_cases [of y] by linarith
qed

lemma round_half_even_error: "\<bar>of_int (round_half_even y) - y\<bar> \<le> 1 / 2"
proof -
  have "of_int \<lfloor>y\<rfloor> \<le> y" and "y < of_int \<lfloor>y\<rfloor> + 1"
    by linarith+
  then show ?thesis
    using round_half_even_cases [of y] by (auto simp: abs_le_iff)
qed

lemma binary_exponent_less:
  assumes "0 < x" and "x < 2 powi (k + 1)"
  shows "binary_exponent x \<le> k"
proof (rule ccontr)
  assume "\<not> binary_exponent x \<le> k"
  then have "k + 1 \<le> binary_exponent x" by simp
  then have "(2::rat) powi (k + 1) \<le> 2 powi (binary_exponent x)"
    by (intro power_int_increasing) simp_all
  also have "\<dots> \<le> x" using assms(1) by (rule binary_exponent_le)
  finally show False using assms(2) by simp
qed

lemma on_grid:
  assumes "e \<le> 52"
  shows "\<exists>M. (of_int N :: rat) / 2 powi (e - 52) = of_int M"
proof -
  have "(2::rat) powi (e - 52) = inverse (2 ^ nat (52 - e))"
    using assms by (cases "e = 52") (simp_all add: power_int_def power_one_over inverse_eq_divide)
  then have "(of_int N :: rat) / 2 powi (e - 52) = of_int (N * 2 ^ nat (52 - e))"
    by (simp add: divide_inverse)
  then show ?thesis by blast
qed

lemma round_double_pos:
  assumes "0 < x"
  shows "round_double x =
     of_int (round_half_even (x / 2 powi (max (binary_exponent x) (- 1022) - 52)))
       * 2 powi (max (binary_exponent x) (- 1022) - 52)"
  using assms by (simp add: round_double_def Let_def)

lemma round_double_nonneg:
  assumes "0 \<le> x"
  shows "0 \<le> round_double x"
proof (cases "x = 0")
  case True
  then show ?thesis by (simp add: round_double_def)
next
  case False
  with assms have pos: "0 < x" by simp
  define u :: rat where "u = 2 powi (max (binary_exponent x) (- 1022) - 52)"
  have u: "0 < u" by (simp add: u_def)
  have "(of_int 0 :: rat) \<le> x / u" using pos u by simp
  then have "0 \<le> round_half_even (x / u)" by (rule round_half_even_ge)
  then show ?thesis
    using u unfolding round_double_pos [OF pos] u_def [symmetric] by simp
qed

lemma round_double_le_int:
  assumes "x \<le> of_int N" and "0 \<le> N" and "N < 2 ^ 53"
  shows "round_double x \<le> of_int N"
proof (cases "0 < x")
  case False
  then consider "x = 0" | "x < 0" by linarith
  then show ?thesis
  proof cases
    case 1
    then show ?thesis using assms(2) by (simp add: round_double_def)
  next
    case 2
    define u :: rat where "u = 2 powi (max (binary_exponent \<bar>x\<bar>) (- 1022) - 52)"
    have u: "0 < u" by (simp add: u_def)
    have "(of_int 0 :: rat) \<le> \<bar>x\<bar> / u" using u by simp
    then have "0 \<le> round_half_even (\<bar>x\<bar> / u)" by (rule round_half_even_ge)
    then have "round_double x \<le> 0"
      using 2 u unfolding round_double_def Let_def u_def [symmetric]
      by simp
    then show ?thesis using assms(2) by (simp add: order_trans [where y = 0])
  qed
next
  case True
  define e where "e = max (binary_exponent x) (- 1022)"
  define u :: rat where "u = 2 powi (e - 52)"
  have u: "0 < u" by (simp add: u_def)
  have "x < 2 powi (52 + 1)"
  proof -
    have "(of_int N :: rat) < of_int (2 ^ 53)" using assms(3) by (simp only: of_int_less_iff)
    then show ?thesis using assms(1) by simp
  qed
  with True have "binary_exponent x \<le> 52" by (rule binary_exponent_less)
  then have "e \<le> 52" by (simp add: e_def)
  then obtain M where M: "(of_int N :: rat) / u = of_int M"
    unfolding u_def using on_grid by blast
  have "x / u \<le> of_int N / u" using assms(1) u by (simp add: divide_right_mono)
  then have "round_half_even (x / u) \<le> M" unfolding M by (rule round_half_even_le)
  then have "(of_int (round_half_even (x / u)) :: rat) * u \<le> of_int M * u"
    using u by (simp add: mult_right_mono)
  also have "of_int M * u = of_int N" using M u by (simp add: field_simps)
  finally show ?thesis
    unfolding round_double_pos [OF True] e_def [symmetric] u_def [symmetric] .
qed

lemma round_double_of_int:
  assumes "0 \<le> n" and "n < 2 ^ 53"
  shows "round_double (of_int n) = of_int n"
proof (cases "n = 0")
  case True
  then show ?thesis by (simp add: round_double_def)
next
  case False
  with assms(1) have pos: "(0::rat) < of_int n" by simp
  define e where "e = max (binary_exponent (of_int n)) (- 1022)"
  define u :: rat where "u = 2 powi (e - 52)"
  have u: "0 < u" by (simp add: u_def)
  have "(of_int n :: rat) < 2 powi (52 + 1)"
  proof -
    have "(of_int n :: rat) < of_int (2 ^ 53)" using assms(2) by (simp only: of_int_less_iff)
    then show ?thesis by simp
  qed
  with pos have "binary_exponent (of_int n) \<le> 52" by (rule binary_exponent_less)
  then have "e \<le> 52" by (simp add: e_def)
  then obtain M where M: "(of_int n :: rat) / u = of_int M"
    unfolding u_def using on_grid by blast
  have "of_int (round_half_even (of_int n / u)) * u = of_int M * u"
    unfolding M by (simp add: round_half_even_of_int)
  also have "\<dots> = of_int n" using M u by (simp add: field_simps)
  finally show ?thesis
    unfolding round_double_pos [OF pos] e_def [symmetric] u_def [symmetric] .
qed

lemma round_double_error:
  assumes "0 < x"
  shows "\<bar>round_double x - x\<bar> \<le> 2 powi (max (binary_exponent x) (- 1022) - 53)"
proof -
  define e where "e = max (binary_exponent x) (- 1022)"
  define u :: rat where "u = 2 powi (e - 52)"
  have u: "0 < u" by (simp add: u_def)
  have "of_int (round_half_even (x / u)) * u - x = (of_int (round_half_even (x / u)) - x / u) * u"
    using u by (simp add: field_simps)
  then have "\<bar>round_double x - x\<bar> = \<bar>of_int (round_half_even (x / u)) - x / u\<bar> * u"
    unfolding round_double_pos [OF assms] e_def [symmetric] u_def [symmetric]
    using u by (simp add: abs_mult)
  also have "\<dots> \<le> 1 / 2 * u"
    using round_half_even_error [of "x / u"] u by (simp add: mult_right_mono)
  also have "1 / 2 * u = 2 powi (e - 53)"
    unfolding u_def using power_int_diff [of "2::rat" "e - 52" 1] by simp
  finally show ?thesis unfolding e_def .
qed

lemma round_double_minus: "round_double (- x) = - round_double x"
  by (simp add: round_double_def Let_def)

lemma round_double_int:
  assumes "\<bar>n\<bar> < 2 ^ 53"
  shows "round_double (of_int n) = of_int n"
proof (cases "0 \<le> n")
  case True
  with assms show ?thesis by (simp add: round_double_of_int)
next
  case False
  with assms have "0 \<le> - n" and "- n < 2 ^ 53" by simp_all
  then have "round_double (of_int (- n)) = of_int (- n)" by (rule round_double_of_int)
  then show ?thesis using round_double_minus [of "of_int n"] by simp
qed

lemma round_double_abs_le_int:
  assumes "\<bar>x\<bar> \<le> of_int N" and "N < 2 ^ 53"
  shows "\<bar>round_double x\<bar> \<le> of_int N"
proof -
  have N: "0 \<le> N"
  proof -
    have "(0::rat) \<le> of_int N" using assms(1) by linarith
    then show ?thesis by simp
  qed
  have up: "round_double x \<le> of_int N"
    using assms N by (intro round_double_le_int) simp_all
  have "round_double (- x) \<le> of_int N"
    using assms N by (intro round_double_le_int) simp_all
  then have "- round_double x \<le> of_int N" by (simp add: round_double_minus)
  with up show ?thesis by (simp add: abs_le_iff)
qed

lemma to_double_bounded:
  assumes "\<bar>x\<bar> \<le> of_int N" and "N < 2 ^ 53"
  shows "to_double x = Fin (round_double x)"
proof -
  have "\<bar>round_double x\<bar> \<le> of_int N" using assms by (rule round_double_abs_le_int)
  moreover have "(of_int N :: rat) < of_int (2 ^ 53)" using assms(2) by (simp only: of_int_less_iff)
  ultimately have "\<bar>round_double x\<bar> < 2 ^ 53" by simp
  moreover have "(2::rat) ^ 53 < 2 ^ 1024" by simp
  ultimately have "\<bar>round_double x\<bar> < 2 ^ 1024" by (rule less_trans)
  then have "\<not> 2 ^ 1024 \<le> round_double x" and "\<not> round_double x \<le> - (2 ^ 1024)"
    by (simp_all add: abs_less_iff)
  then show ?thesis by (simp add: to_double_def Let_def)
qed

lemma to_double_int:
  assumes "\<bar>n\<bar> < 2 ^ 53"
  shows "to_double (of_int n) = Fin (of_int n)"
proof -
  have "\<bar>of_int n :: rat\<bar> \<le> of_int \<bar>n\<bar>" by simp
  then have "to_double (of_int n) = Fin (round_double (of_int n))"
    using assms by (rule to_double_bounded)
  then show ?thesis using assms by (simp add: round_double_int)
qed

lemma round_double_error_le:
  assumes "0 < x" and "x < 2 powi (k + 1)" and "- 1022 \<le> k"
  shows "\<bar>round_double x - x\<bar> \<le> 2 powi (k - 53)"
proof -
  have "binary_exponent x \<le> k" using assms(1,2) by (rule binary_exponent_less)
  then have "max (binary_exponent x) (- 1022) - 53 \<le> k - 53" using assms(3) by simp
  then have "(2::rat) powi (max (binary_exponent x) (- 1022) - 53) \<le> 2 powi (k - 53)"
    by (intro power_int_increasing) simp_all
  with round_double_error [OF assms(1)] show ?thesis by linarith
qed

lemma round_double_relative:
  assumes "0 < x"
  shows "\<bar>round_double x - x\<bar> \<le> max (x / 2 ^ 53) (1 / 2 ^ 1075)"
proof (cases "- 1022 \<le> binary_exponent x")
  case True
  then have "max (binary_exponent x) (- 1022) - 53 = binary_exponent x + (- 53)" by simp
  then have "(2::rat) powi (max (binary_exponent x) (- 1022) - 53)
      = 2 powi (binary_exponent x) * 2 powi (- 53)"
    by (simp only: power_int_add [of "2::rat", simplified])
  also have "\<dots> = 2 powi (binary_exponent x) / 2 ^ 53"
    by (simp add: power_int_minus inverse_eq_divide)
  also have "\<dots> \<le> x / 2 ^ 53"
    using binary_exponent_le [OF assms] by (simp add: divide_right_mono)
  finally show ?thesis using round_double_error [OF assms] by linarith
next
  case False
  then have "max (binary_exponent x) (- 1022) - 53 = - 1075" by simp
  then have "(2::rat) powi (max (binary_exponent x) (- 1022) - 53) = 1 / 2 ^ 1075"
    by (simp add: power_int_minus inverse_eq_divide)
  then show ?thesis using round_double_error [OF assms] by linarith
qed

text \<open>
  Three values, as the engine computes them: the double for 0.1, the sum
  \<open>0.1 + 0.2\<close> (0.30000000000000004), and \<open>2^53 + 1\<close>, which is rounded to \<open>2^53\<close>.
\<close>

lemma round_double_examples:
  "round_double (1 / 10) = 3602879701896397 / 36028797018963968"
  "round_double (3602879701896397 / 36028797018963968 + 3602879701896397 / 18014398509481984)
     = 1351079888211149 / 4503599627370496"
  "round_double (2 ^ 53 + 1) = 2 ^ 53"
  by code_simp+


section \<open>Properties of Pagination\<close>

lemma safe_sum:
  assumes "0 \<le> a" and "0 \<le> b" and "a + b \<le> MAX_SAFE_INTEGER"
  shows "js_plus (Fin (of_int a)) (Fin (of_int b)) = Fin (of_int (a + b))"
proof -
  have "\<bar>a + b\<bar> < 2 ^ 53" using assms by (simp add: MAX_SAFE_INTEGER_def)
  then have "to_double (of_int (a + b)) = Fin (of_int (a + b))" by (rule to_double_int)
  then show ?thesis by simp
qed

lemma safe_difference:
  assumes "0 \<le> a" and "0 \<le> b" and "a \<le> MAX_SAFE_INTEGER" and "b \<le> MAX_SAFE_INTEGER"
  shows "js_minus (Fin (of_int a)) (Fin (of_int b)) = Fin (of_int (a - b))"
proof -
  have "\<bar>a - b\<bar> < 2 ^ 53" using assms by (simp add: MAX_SAFE_INTEGER_def abs_less_iff)
  then have "to_double (of_int (a - b)) = Fin (of_int (a - b))" by (rule to_double_int)
  then show ?thesis by simp
qed

lemma safe_quotient:
  assumes "0 \<le> a" and "0 < b" and "a \<le> MAX_SAFE_INTEGER"
  shows "js_divide (Fin (of_int a)) (Fin (of_int b)) = Fin (round_double (of_int a / of_int b))"
proof -
  define x :: rat where "x = of_int a / of_int b"
  have x0: "0 \<le> x" using assms by (simp add: x_def)
  have "(1::rat) \<le> of_int b" using assms(2) by simp
  then have "x \<le> of_int a / 1"
    unfolding x_def using assms(1) by (intro divide_left_mono) simp_all
  then have xa: "\<bar>x\<bar> \<le> of_int a" using x0 by simp
  have "a < 2 ^ 53" using assms(3) by (simp add: MAX_SAFE_INTEGER_def)
  with xa have "to_double x = Fin (round_double x)" by (rule to_double_bounded)
  then show ?thesis
    using assms(2) by (simp add: js_divide_def x_def)
qed

lemma safe_ceiling:
  assumes "0 \<le> t" and "t \<le> MAX_SAFE_INTEGER" and "0 < l" and "l \<le> MAX_SAFE_INTEGER"
  shows "\<lceil>round_double (of_int t / of_int l)\<rceil> = \<lceil>(of_int t / of_int l :: rat)\<rceil>"
proof (cases "t = 0")
  case True
  then show ?thesis by (simp add: round_double_def)
next
  case False
  define q :: rat where "q = of_int t / of_int l"
  define n where "n = \<lceil>q\<rceil>"
  have tpos: "0 < t" using False assms(1) by simp
  have lpos: "(0::rat) < of_int l" using assms(3) by simp
  have q: "0 < q" using tpos lpos by (simp add: q_def)
  have t53: "(of_int t :: rat) < 2 ^ 53"
  proof -
    have "t < 2 ^ 53" using assms(2) by (simp add: MAX_SAFE_INTEGER_def)
    then have "(of_int t :: rat) < of_int (2 ^ 53)" by (simp only: of_int_less_iff)
    then show ?thesis by simp
  qed
  have l53: "(of_int l :: rat) < 2 ^ 53"
  proof -
    have "l < 2 ^ 53" using assms(4) by (simp add: MAX_SAFE_INTEGER_def)
    then have "(of_int l :: rat) < of_int (2 ^ 53)" by (simp only: of_int_less_iff)
    then show ?thesis by simp
  qed
  have up: "q \<le> of_int n" unfolding n_def by (rule le_of_int_ceiling)
  have n0: "0 < n" using q unfolding n_def by simp
  have "q \<le> of_int t / 1"
    unfolding q_def using tpos assms(3) by (intro divide_left_mono) simp_all
  then have "n \<le> t" unfolding n_def by (simp add: ceiling_le_iff)
  then have n53: "n < 2 ^ 53" using assms(2) by (simp add: MAX_SAFE_INTEGER_def)
  have hi: "round_double q \<le> of_int n"
    using up n0 n53 by (intro round_double_le_int) simp_all
  have "of_int \<lceil>q\<rceil> - 1 < q" using ceiling_correct [of q] by blast
  then have "of_int (n - 1) < q" by (simp add: n_def)
  then have "of_int ((n - 1) * l) < (of_int t :: rat)"
    using lpos by (simp add: q_def pos_less_divide_eq)
  then have "(n - 1) * l < t" by (simp only: of_int_less_iff)
  then have "(n - 1) * l + 1 \<le> t" by simp
  then have "(of_int ((n - 1) * l + 1) :: rat) \<le> of_int t" by (simp only: of_int_le_iff)
  then have "(of_int ((n - 1) * l + 1) :: rat) / of_int l \<le> of_int t / of_int l"
    using lpos by (intro divide_right_mono) simp_all
  moreover have "(of_int ((n - 1) * l + 1) :: rat) / of_int l = of_int (n - 1) + 1 / of_int l"
    using lpos by (simp add: add_divide_distrib)
  ultimately have lo: "of_int (n - 1) + 1 / of_int l \<le> q"
    by (simp only: q_def)
  have e1: "q / 2 ^ 53 < 1 / of_int l"
    using t53 lpos by (simp add: q_def field_simps)
  have e2: "(1::rat) / 2 ^ 1075 < 1 / of_int l"
  proof -
    have "(2::rat) ^ 53 < 2 ^ 1075" by simp
    with l53 have "(of_int l :: rat) < 2 ^ 1075" by (rule less_trans)
    then show ?thesis using lpos by (simp add: field_simps)
  qed
  have "\<bar>round_double q - q\<bar> < 1 / of_int l"
    using round_double_relative [OF q] e1 e2 by linarith
  with lo have "of_int (n - 1) < round_double q" by linarith
  then have "of_int n - 1 < round_double q" by simp
  with hi have "\<lceil>round_double q\<rceil> = n" by (intro ceiling_unique) simp_all
  then show ?thesis unfolding n_def q_def .
qed

lemma Math_max_one_int: "Math_max (Fin 1) (Fin (of_int c)) = Fin (of_int (max 1 c))"
  by (simp add: Math_max_def max_def)

text \<open>
  C9, where the claim fails. (a) With \<open>total = 5\<close>, \<open>limit = 10\<close> and \<open>offset = 10\<close>
  (\<open>total \<ge> 0\<close>, \<open>limit > 0\<close>, \<open>offset \<ge> 0\<close>, and the offset beyond the last item) the
  component shows the range 11 to 5: \<open>start \<le> end\<close> fails. (b) With \<open>total = 2^53 + 4\<close>,
  \<open>limit = 1\<close> and \<open>offset = 2^53 + 2\<close>, all three doubles, \<open>offset + limit < total\<close>
  holds of the numbers and yet Next is disabled: the sum is rounded to \<open>2^53 + 4\<close>.
  (c) With \<open>total = 1/2\<close>, \<open>limit = 1\<close> and \<open>offset = 0\<close> (\<open>offset < total\<close>) the range is
  1 to 1/2.
\<close>

theorem pagination_range_counterexample:
  "range_start \<lparr>total = Fin 5, limit = Fin 10, offset = Fin 10\<rparr> = Fin 11
   \<and> range_end \<lparr>total = Fin 5, limit = Fin 10, offset = Fin 10\<rparr> = Fin 5
   \<and> \<not> js_le (range_start \<lparr>total = Fin 5, limit = Fin 10, offset = Fin 10\<rparr>)
            (range_end \<lparr>total = Fin 5, limit = Fin 10, offset = Fin 10\<rparr>)
   \<and> round_double 9007199254740996 = 9007199254740996
   \<and> round_double 9007199254740994 = 9007199254740994
   \<and> (9007199254740994 + 1 < (9007199254740996 :: rat))
   \<and> next_disabled \<lparr>total = Fin 9007199254740996, limit = Fin 1, offset = Fin 9007199254740994\<rparr>
   \<and> range_start \<lparr>total = Fin (1 / 2), limit = Fin 1, offset = Fin 0\<rparr> = Fin 1
   \<and> range_end \<lparr>total = Fin (1 / 2), limit = Fin 1, offset = Fin 0\<rparr> = Fin (1 / 2)"
proof -
  have five: "to_double (of_int 20) = Fin (of_int 20)" "to_double (of_int 11) = Fin (of_int 11)"
    "to_double (of_int 1) = Fin (of_int 1)"
    by (rule to_double_int, simp)+
  have a: "round_double 9007199254740996 = 9007199254740996"
    by code_simp
  have b: "round_double 9007199254740994 = 9007199254740994"
    by code_simp
  have c: "round_double 9007199254740995 = 9007199254740996"
    by code_simp
  have d: "to_double 9007199254740995 = Fin 9007199254740996"
    unfolding to_double_def Let_def c by simp
  show ?thesis
    using five a b d
    by (simp add: range_start_def range_end_def js_le_def js_ge_def Math_min_def
        next_disabled_def hasNext_def)
qed

text \<open>
  C9, as it holds: for props that are whole numbers in the range of the safe integers,
  \<open>0 \<le> total \<le> 2^53 - 1\<close>, \<open>0 < limit\<close>, \<open>0 \<le> offset\<close> and
  \<open>offset + limit \<le> 2^53 - 1\<close>, Prev is enabled iff \<open>offset > 0\<close> and emits
  \<open>max(0, offset - limit)\<close>; Next is enabled iff \<open>offset + limit < total\<close> and emits
  \<open>offset + limit\<close>; \<open>totalPages\<close> is \<open>max(1, ceil(total / limit))\<close>, at least 1; the range starts at
  0 when \<open>total = 0\<close> and at \<open>offset + 1 \<ge> 1\<close> otherwise, and it ends at
  \<open>min(offset + limit, total) \<le> total\<close>; and if \<open>offset < total\<close> then \<open>start \<le> end\<close>.
\<close>

theorem pagination_valid_range:
  assumes "p = \<lparr>total = Fin (of_int t), limit = Fin (of_int l), offset = Fin (of_int k)\<rparr>"
    and "0 \<le> t" and "t \<le> MAX_SAFE_INTEGER"
    and "0 < l" and "0 \<le> k" and "k + l \<le> MAX_SAFE_INTEGER"
  shows "prev_disabled p = (\<not> 0 < k)
    \<and> goToPrev p = (if 0 < k then Some (Fin (of_int (max 0 (k - l)))) else None)
    \<and> next_disabled p = (\<not> k + l < t)
    \<and> goToNext p = (if k + l < t then Some (Fin (of_int (k + l))) else None)
    \<and> totalPages p = Fin (of_int (max 1 \<lceil>(of_int t / of_int l :: rat)\<rceil>))
    \<and> js_ge (totalPages p) (Fin 1)
    \<and> range_start p = Fin (of_int (if t = 0 then 0 else k + 1))
    \<and> range_end p = Fin (of_int (min (k + l) t))
    \<and> (t \<noteq> 0 \<longrightarrow> js_le (Fin 1) (range_start p))
    \<and> js_le (range_end p) (total p)
    \<and> (k < t \<longrightarrow> js_le (range_start p) (range_end p))"
proof -
  have l0: "0 \<le> l" using assms(4) by simp
  have sum: "js_plus (Fin (of_int k)) (Fin (of_int l)) = Fin (of_int (k + l))"
    using assms(5) l0 assms(6) by (rule safe_sum)
  have one: "js_plus (Fin (of_int k)) (Fin 1) = Fin (of_int (k + 1))"
    using safe_sum [of k 1] assms(4,5,6) by simp
  have diff: "js_minus (Fin (of_int k)) (Fin (of_int l)) = Fin (of_int (k - l))"
    using assms(4,5,6) by (intro safe_difference) simp_all
  have q: "js_divide (Fin (of_int t)) (Fin (of_int l)) = Fin (round_double (of_int t / of_int l))"
    using assms(2) assms(4) assms(3) by (rule safe_quotient)
  have lm: "l \<le> MAX_SAFE_INTEGER" using assms(5,6) by simp
  have prev: "prev_disabled p = (\<not> 0 < k)"
    by (simp add: assms(1) prev_disabled_def hasPrev_def js_gt_def)
  have goprev: "goToPrev p = (if 0 < k then Some (Fin (of_int (max 0 (k - l)))) else None)"
    using diff by (simp add: assms(1) goToPrev_def hasPrev_def js_gt_def Math_max_def max_def)
  have hn: "hasNext p = (k + l < t)"
  proof -
    have "hasNext p = js_lt (Fin (of_int (k + l))) (Fin (of_int t))"
      unfolding hasNext_def assms(1) by (simp only: pagination_props.simps sum)
    also have "\<dots> = ((of_int (k + l) :: rat) < of_int t)" by (simp only: js_lt.simps)
    also have "\<dots> = (k + l < t)" by (rule of_int_less_iff)
    finally show ?thesis .
  qed
  have next': "next_disabled p = (\<not> k + l < t)"
    by (simp only: next_disabled_def hn)
  have gonext: "goToNext p = (if k + l < t then Some (Fin (of_int (k + l))) else None)"
    unfolding goToNext_def hn by (simp only: assms(1) pagination_props.simps sum)
  have pages: "totalPages p = Fin (of_int (max 1 \<lceil>(of_int t / of_int l :: rat)\<rceil>))"
    unfolding totalPages_def assms(1)
    by (simp only: pagination_props.simps q Math_ceil_def jsnum.case Math_max_one_int
        safe_ceiling [OF assms(2) assms(3) assms(4) lm])
  have pages1: "js_ge (totalPages p) (Fin 1)"
    unfolding pages by (simp add: js_ge_def)
  have start: "range_start p = Fin (of_int (if t = 0 then 0 else k + 1))"
    using one by (simp add: assms(1) range_start_def)
  have end': "range_end p = Fin (of_int (min (k + l) t))"
    using sum by (simp add: assms(1) range_end_def Math_min_def min_def)
  have s1: "t \<noteq> 0 \<longrightarrow> js_le (Fin 1) (range_start p)"
    unfolding start using assms(5) by (simp add: js_le_def js_ge_def)
  have e1: "js_le (range_end p) (total p)"
    unfolding end' by (simp add: assms(1) js_le_def js_ge_def)
  have se: "k < t \<longrightarrow> js_le (range_start p) (range_end p)"
    unfolding start end' using assms(4,5) by (auto simp: js_le_def js_ge_def min_def)
  show ?thesis
    using prev goprev next' gonext pages pages1 start end' s1 e1 se by blast
qed

theorem pagination_valid_range_witness:
  "goToPrev \<lparr>total = Fin 25, limit = Fin 10, offset = Fin 10\<rparr> = Some (Fin 0)
   \<and> goToNext \<lparr>total = Fin 25, limit = Fin 10, offset = Fin 10\<rparr> = Some (Fin 20)
   \<and> totalPages \<lparr>total = Fin 25, limit = Fin 10, offset = Fin 10\<rparr> = Fin 3
   \<and> range_start \<lparr>total = Fin 25, limit = Fin 10, offset = Fin 10\<rparr> = Fin 11
   \<and> range_end \<lparr>total = Fin 25, limit = Fin 10, offset = Fin 10\<rparr> = Fin 20
   \<and> js_le (range_start \<lparr>total = Fin 25, limit = Fin 10, offset = Fin 10\<rparr>)
          (range_end \<lparr>total = Fin 25, limit = Fin 10, offset = Fin 10\<rparr>)"
proof -
  define p where "p = \<lparr>total = Fin 25, limit = Fin 10, offset = Fin 10\<rparr>"
  have p: "p = \<lparr>total = Fin (of_int 25), limit = Fin (of_int 10), offset = Fin (of_int 10)\<rparr>"
    by (simp add: p_def)
  have all: "prev_disabled p = (\<not> 0 < (10::int))
    \<and> goToPrev p = (if 0 < (10::int) then Some (Fin (of_int (max 0 (10 - 10)))) else None)
    \<and> next_disabled p = (\<not> (10::int) + 10 < 25)
    \<and> goToNext p = (if (10::int) + 10 < 25 then Some (Fin (of_int (10 + 10))) else None)
    \<and> totalPages p = Fin (of_int (max 1 \<lceil>(of_int 25 / of_int 10 :: rat)\<rceil>))
    \<and> js_ge (totalPages p) (Fin 1)
    \<and> range_start p = Fin (of_int (if (25::int) = 0 then 0 else 10 + 1))
    \<and> range_end p = Fin (of_int (min (10 + 10) 25))
    \<and> ((25::int) \<noteq> 0 \<longrightarrow> js_le (Fin 1) (range_start p))
    \<and> js_le (range_end p) (total p)
    \<and> ((10::int) < 25 \<longrightarrow> js_le (range_start p) (range_end p))"
    by (rule pagination_valid_range [OF p]) (simp_all add: MAX_SAFE_INTEGER_def)
  have "goToPrev p = Some (Fin 0)" using all by simp
  moreover have "goToNext p = Some (Fin 20)" using all by simp
  moreover have "totalPages p = Fin 3"
  proof -
    have "\<lceil>(of_int 25 / of_int 10 :: rat)\<rceil> = 3" by (simp add: ceiling_unique)
    with all show ?thesis by simp
  qed
  moreover have "range_start p = Fin 11" using all by simp
  moreover have "range_end p = Fin 20" using all by simp
  moreover have "js_le (range_start p) (range_end p)" using all by (simp add: js_le_def js_ge_def)
  ultimately show ?thesis unfolding p_def by blast
qed


section \<open>Properties of the status domains\<close>

text \<open>
  C5: the claim is that the status filter options and the statuses with a badge style
  of their own are exactly PENDING, FILLED, FAILED, CANCELLED. The page has EXECUTED
  where the data model has FILLED: FILLED is no filter option, has no style entry, and
  a FILLED trade is shown with the style of CANCELLED.
\<close>

theorem trade_status_domain_differs:
  "set status_filter_values = {''EXECUTED'', ''PENDING'', ''FAILED'', ''CANCELLED''} \<and>
   set styled_statuses = {''EXECUTED'', ''PENDING'', ''FAILED'', ''CANCELLED''} \<and>
   ''FILLED'' \<in> trade_status_domain \<and>
   ''FILLED'' \<notin> set status_filter_values \<and>
   ''FILLED'' \<notin> set styled_statuses \<and>
   ''EXECUTED'' \<notin> trade_status_domain \<and>
   statusBadge ''FILLED'' = (''text-gray-400 bg-gray-700 border-gray-600'', ''FILLED'') \<and>
   badge_style ''FILLED'' = badge_style ''CANCELLED''"
  by (simp add: status_filter_values_def FILTER_FIELDS_def styled_statuses_def styles_def
      trade_status_domain_def statusBadge_def badge_style_def toUpperCase_def upper_char_def)

text \<open>
  C6, where the claim fails: PARTIAL_FAILURE is a PipelineRun status of the data model
  and is not a value of the type \<open>PipelineStatus\<close>, so the non-null values of the type
  are not the data model's set.
\<close>

theorem PipelineStatus_misses_partial_failure:
  "''PARTIAL_FAILURE'' \<in> pipeline_run_statuses \<and>
   \<not> is_PipelineStatus (Some ''PARTIAL_FAILURE'') \<and>
   {s. is_PipelineStatus (Some s)} \<noteq> pipeline_run_statuses"
proof -
  have member: "''PARTIAL_FAILURE'' \<in> pipeline_run_statuses"
    by (simp add: pipeline_run_statuses_def)
  have absent: "\<not> is_PipelineStatus (Some ''PARTIAL_FAILURE'')"
    by (simp add: is_PipelineStatus_def PipelineStatus_literals_def)
  have differ: "{s. is_PipelineStatus (Some s)} \<noteq> pipeline_run_statuses"
    using member absent by blast
  show ?thesis using member absent differ by blast
qed

text \<open>
  C6, as it holds: the non-null values of \<open>PipelineStatus\<close> are RUNNING, SUCCESS and
  FAILED, and \<open>null\<close> is a value of the type; of the PipelineRun statuses of the data
  model, all but PARTIAL_FAILURE are values of the type. The status badge, whose prop is
  a \<open>string | null\<close> and not a \<open>PipelineStatus\<close>, shows the three with their labels
  and PARTIAL_FAILURE with its own text.
\<close>

theorem PipelineStatus_values:
  "{s. is_PipelineStatus (Some s)} = {''RUNNING'', ''SUCCESS'', ''FAILED''} \<and>
   is_PipelineStatus None \<and>
   pipeline_run_statuses = {s. is_PipelineStatus (Some s)} \<union> {''PARTIAL_FAILURE''} \<and>
   PipelineStatusBadge_label (Some ''RUNNING'') = Some ''Running'' \<and>
   PipelineStatusBadge_label (Some ''SUCCESS'') = Some ''Success'' \<and>
   PipelineStatusBadge_label (Some ''FAILED'') = Some ''Failed'' \<and>
   PipelineStatusBadge_label (Some ''PARTIAL_FAILURE'') = Some ''PARTIAL_FAILURE''"
proof -
  have vals: "{s. is_PipelineStatus (Some s)} = {''RUNNING'', ''SUCCESS'', ''FAILED''}"
    by (auto simp: is_PipelineStatus_def PipelineStatus_literals_def)
  have null: "is_PipelineStatus None"
    by (simp add: is_PipelineStatus_def)
  have model: "pipeline_run_statuses = {s. is_PipelineStatus (Some s)} \<union> {''PARTIAL_FAILURE''}"
    unfolding vals by (auto simp: pipeline_run_statuses_def)
  have badge: "PipelineStatusBadge_label (Some ''RUNNING'') = Some ''Running''"
    "PipelineStatusBadge_label (Some ''SUCCESS'') = Some ''Success''"
    "PipelineStatusBadge_label (Some ''FAILED'') = Some ''Failed''"
    "PipelineStatusBadge_label (Some ''PARTIAL_FAILURE'') = Some ''PARTIAL_FAILURE''"
    by (simp_all add: PipelineStatusBadge_label_def badge_configs_def toUpperCase_def
        upper_char_def)
  show ?thesis using vals null model badge by blast
qed


section \<open>Properties of the API client\<close>

text \<open>
  C8, as stated: apiFetch returns the parsed JSON body if and only if the response
  status is 2xx. A 2xx response whose body is not JSON (an empty 204, say) returns
  nothing: \<open>response.json()\<close> rejects and so does \<open>apiFetch\<close>.
\<close>

theorem apiFetch_2xx_counterexample:
  "ok \<lparr>resp_status = 204, resp_statusText = ''No Content'', resp_body = None\<rparr> \<and>
   apiFetch (\<lambda>v. []) (\<lambda>v. [])
     (Inr \<lparr>resp_status = 204, resp_statusText = ''No Content'', resp_body = None\<rparr>)
   = Inl SyntaxError"
  by (simp add: ok_def apiFetch_def)

text \<open>
  C8, amended: for every HTTP response, apiFetch returns a value exactly when the
  status is 2xx and the body parses as JSON, and the value is the parsed body; a 2xx
  response with a body that is not JSON rejects with the parser's error. Every non-2xx
  response throws an \<open>Error\<close> whose message is \<open>body.error.message\<close> when that is
  truthy, else \<open>body.detail\<close> when that is truthy (as it is when a string, through
  \<open>JSON.stringify\<close> otherwise), else \<open>HTTP <status>: <statusText>\<close>. So no caller
  receives a value from a failed request.
\<close>

theorem apiFetch_raises_on_failure:
  "(\<forall>v. apiFetch ToString stringify (Inr r) = Inr v \<longleftrightarrow> ok r \<and> resp_body r = Some v) \<and>
   (ok r \<and> resp_body r = None \<longrightarrow> apiFetch ToString stringify (Inr r) = Inl SyntaxError) \<and>
   (\<not> ok r \<longrightarrow>
      (\<exists>msg. apiFetch ToString stringify (Inr r) = Inl (Error msg) \<and>
         (\<forall>m. truthy (body_error_message r) \<and> body_error_message r = Some m
              \<longrightarrow> msg = js_String ToString m) \<and>
         (\<forall>s. \<not> truthy (body_error_message r) \<and> body_detail r = Some (JStr s) \<and> s \<noteq> []
              \<longrightarrow> msg = s) \<and>
         (\<forall>d. \<not> truthy (body_error_message r) \<and> truthy (body_detail r) \<and>
               body_detail r = Some d \<and> (\<forall>s. d \<noteq> JStr s)
              \<longrightarrow> msg = stringify d) \<and>
         (\<not> truthy (body_error_message r) \<and> \<not> truthy (body_detail r)
              \<longrightarrow> msg = ''HTTP '' @ show_nat (resp_status r) @ '': '' @ resp_statusText r)))"
proof (intro conjI allI impI)
  fix v
  show "apiFetch ToString stringify (Inr r) = Inr v \<longleftrightarrow> ok r \<and> resp_body r = Some v"
    by (auto simp: apiFetch_def split: option.splits)
next
  assume "ok r \<and> resp_body r = None"
  then show "apiFetch ToString stringify (Inr r) = Inl SyntaxError"
    by (simp add: apiFetch_def)
next
  assume notok: "\<not> ok r"
  let ?msg = "error_message ToString stringify r"
  have thrown: "apiFetch ToString stringify (Inr r) = Inl (Error ?msg)"
    using notok by (simp add: apiFetch_def)
  have absent: "resp_body r = None \<Longrightarrow> body_error_message r = None \<and> body_detail r = None"
    by (simp add: body_error_message_def body_detail_def opt_chain_def)
  have c1: "\<forall>m. truthy (body_error_message r) \<and> body_error_message r = Some m
              \<longrightarrow> ?msg = js_String ToString m"
    using absent by (cases "resp_body r") (auto simp: error_message_def)
  have c2: "\<forall>s. \<not> truthy (body_error_message r) \<and> body_detail r = Some (JStr s) \<and> s \<noteq> []
              \<longrightarrow> ?msg = s"
    using absent by (cases "resp_body r") (auto simp: error_message_def truthy_def)
  have c3: "\<forall>d. \<not> truthy (body_error_message r) \<and> truthy (body_detail r) \<and>
               body_detail r = Some d \<and> (\<forall>s. d \<noteq> JStr s) \<longrightarrow> ?msg = stringify d"
    using absent
    by (cases "resp_body r") (auto simp: error_message_def split: json.splits)
  have c4: "\<not> truthy (body_error_message r) \<and> \<not> truthy (body_detail r)
              \<longrightarrow> ?msg = ''HTTP '' @ show_nat (resp_status r) @ '': '' @ resp_statusText r"
    by (cases "resp_body r") (auto simp: error_message_def http_message_def)
  show "\<exists>msg. apiFetch ToString stringify (Inr r) = Inl (Error msg) \<and>
         (\<forall>m. truthy (body_error_message r) \<and> body_error_message r = Some m
              \<longrightarrow> msg = js_String ToString m) \<and>
         (\<forall>s. \<not> truthy (body_error_message r) \<and> body_detail r = Some (JStr s) \<and> s \<noteq> []
              \<longrightarrow> msg = s) \<and>
         (\<forall>d. \<not> truthy (body_error_message r) \<and> truthy (body_detail r) \<and>
               body_detail r = Some d \<and> (\<forall>s. d \<noteq> JStr s)
              \<longrightarrow> msg = stringify d) \<and>
         (\<not> truthy (body_error_message r) \<and> \<not> truthy (body_detail r)
              \<longrightarrow> msg = ''HTTP '' @ show_nat (resp_status r) @ '': '' @ resp_statusText r)"
    using thrown c1 c2 c3 c4 by blast
qed

theorem apiFetch_raises_on_failure_witness:
  "\<not> ok \<lparr>resp_status = 404, resp_statusText = ''Not Found'',
           resp_body = Some (JObj [(''error'', JObj [(''message'', JStr ''No such trade'')])])\<rparr> \<and>
   truthy (body_error_message \<lparr>resp_status = 404, resp_statusText = ''Not Found'',
           resp_body = Some (JObj [(''error'', JObj [(''message'', JStr ''No such trade'')])])\<rparr>) \<and>
   apiFetch (\<lambda>v. []) (\<lambda>v. [])
     (Inr \<lparr>resp_status = 404, resp_statusText = ''Not Found'',
           resp_body = Some (JObj [(''error'', JObj [(''message'', JStr ''No such trade'')])])\<rparr>)
   = Inl (Error ''No such trade'') \<and>
   (\<forall>v. apiFetch (\<lambda>v. []) (\<lambda>v. [])
     (Inr \<lparr>resp_status = 404, resp_statusText = ''Not Found'',
           resp_body = Some (JObj [(''error'', JObj [(''message'', JStr ''No such trade'')])])\<rparr>)
     \<noteq> Inr v)"
proof -
  let ?r = "\<lparr>resp_status = 404, resp_statusText = ''Not Found'',
           resp_body = Some (JObj [(''error'', JObj [(''message'', JStr ''No such trade'')])])\<rparr>"
  have notok: "\<not> ok ?r"
    by (simp add: ok_def)
  have field: "body_error_message ?r = Some (JStr ''No such trade'')"
    by (simp add: body_error_message_def opt_chain_def get_prop_def)
  have tr: "truthy (body_error_message ?r)"
    by (simp add: field truthy_def)
  from apiFetch_raises_on_failure [of "\<lambda>v. []" "\<lambda>v. []" ?r] notok
  obtain msg where thrown: "apiFetch (\<lambda>v. []) (\<lambda>v. []) (Inr ?r) = Inl (Error msg)"
    and msg: "\<forall>m. truthy (body_error_message ?r) \<and> body_error_message ?r = Some m
                \<longrightarrow> msg = js_String (\<lambda>v. []) m"
    by blast
  from msg tr field have "msg = ''No such trade''"
    by (simp add: js_String_def)
  with thrown notok tr show ?thesis by simp
qed


section \<open>Properties of the positions table\<close>

lemma mset_insert_by: "mset (insert_by cmp x xs) = add_mset x (mset xs)"
  by (induction xs) auto

lemma mset_sort_by: "mset (sort_by cmp xs) = mset xs"
  unfolding sort_by_def by (induction xs) (auto simp: mset_insert_by)





section \<open>Properties of the confidence bar\<close>

lemma clamped_range:
  "\<exists>c. clamped parseFloat v = Fin c \<and> 0 \<le> c \<and> c \<le> 1"
  by (cases "numeric parseFloat v")
    (auto simp: clamped_def isNaN_def Math_min_def Math_max_def)

lemma clamped_in_range:
  assumes "numeric parseFloat v = Fin c" and "0 \<le> c" and "c \<le> 1"
  shows "clamped parseFloat v = Fin c"
  using assms by (auto simp: clamped_def isNaN_def Math_min_def Math_max_def)

lemma percent_product:
  assumes "0 \<le> c" and "c \<le> 1"
  shows "js_times (Fin c) (Fin 100) = Fin (round_double (c * 100))"
    and "0 \<le> round_double (c * 100)" and "round_double (c * 100) \<le> 100"
proof -
  have le: "c * 100 \<le> of_int 100" using assms(2) by simp
  have ge: "0 \<le> c * 100" using assms(1) by simp
  from le ge have "\<bar>c * 100\<bar> \<le> of_int 100" by simp
  then have "to_double (c * 100) = Fin (round_double (c * 100))"
    by (rule to_double_bounded) simp
  then show "js_times (Fin c) (Fin 100) = Fin (round_double (c * 100))"
    by (simp add: js_times_def)
  show "0 \<le> round_double (c * 100)" using ge by (rule round_double_nonneg)
  have "round_double (c * 100) \<le> of_int 100"
    using le by (rule round_double_le_int) simp_all
  then show "round_double (c * 100) \<le> 100" by simp
qed

lemma pct_of_clamped:
  assumes "clamped parseFloat v = Fin c" and "0 \<le> c" and "c \<le> 1"
  shows "pct parseFloat v = Fin (of_int (round (round_double (c * 100))))"
  unfolding pct_def assms(1) percent_product(1) [OF assms(2,3)]
  by (simp add: Math_round_def round_def)

lemma percent_error:
  assumes "0 \<le> c" and "c \<le> 1"
  shows "\<bar>round_double (c * 100) - 100 * c\<bar> \<le> 1 / 2 ^ 47"
proof (cases "c = 0")
  case True
  then show ?thesis by (simp add: round_double_def)
next
  case False
  define x where "x = c * 100"
  have pos: "0 < x" using False assms(1) by (simp add: x_def)
  have "x \<le> 100" using assms(2) by (simp add: x_def)
  also have "(100::rat) < 2 powi (6 + 1)" by simp
  finally have "binary_exponent x \<le> 6" using pos binary_exponent_less by blast
  then have "max (binary_exponent x) (- 1022) - 53 \<le> - 47" by simp
  then have "(2::rat) powi (max (binary_exponent x) (- 1022) - 53) \<le> 2 powi (- 47)"
    by (intro power_int_increasing) simp_all
  also have "(2::rat) powi (- 47) = 1 / 2 ^ 47"
    by (simp add: power_int_minus inverse_eq_divide)
  finally have "\<bar>round_double x - x\<bar> \<le> 1 / 2 ^ 47"
    using round_double_error [OF pos] by linarith
  then show ?thesis by (simp add: x_def mult.commute)
qed

text \<open>
  C7, where the claim fails. The input is the double nearest to 0.015,
  \<open>c = 1080863910568919 / 2^56\<close>, a number in \<open>[0, 1]\<close>. \<open>100 * c\<close> lies below 1.5, so
  that \<open>round(100 * c) = 1\<close>; the machine product \<open>c * 100\<close> is rounded to the double
  1.5, and the component shows \<open>pct = 2\<close>.
\<close>

theorem ConfidenceBar_pct_counterexample:
  "round_double (1080863910568919 / 72057594037927936) = 1080863910568919 / 72057594037927936
   \<and> (0::rat) \<le> 1080863910568919 / 72057594037927936
   \<and> (1080863910568919 / 72057594037927936 :: rat) \<le> 1
   \<and> round (100 * (1080863910568919 / 72057594037927936 :: rat)) = 1
   \<and> pct (\<lambda>s. NaN) (Num (Fin (1080863910568919 / 72057594037927936))) = Fin 2"
proof -
  have d: "round_double (1080863910568919 / 72057594037927936) = 1080863910568919 / 72057594037927936"
    by code_simp
  have r: "round (100 * (1080863910568919 / 72057594037927936 :: rat)) = 1"
    by code_simp
  have p: "round_double (1080863910568919 / 72057594037927936 * 100) = 3 / 2"
    by code_simp
  have h: "round (3 / 2 :: rat) = 2"
    by code_simp
  have "clamped (\<lambda>s. NaN) (Num (Fin (1080863910568919 / 72057594037927936)))
      = Fin (1080863910568919 / 72057594037927936)"
    by (rule clamped_in_range) (simp_all add: numeric_def)
  then have "pct (\<lambda>s. NaN) (Num (Fin (1080863910568919 / 72057594037927936)))
      = Fin (of_int (round (round_double (1080863910568919 / 72057594037927936 * 100))))"
    by (rule pct_of_clamped) simp_all
  then have "pct (\<lambda>s. NaN) (Num (Fin (1080863910568919 / 72057594037927936))) = Fin 2"
    unfolding p h by simp
  with d r show ?thesis by simp
qed

text \<open>
  C7, as it holds. \<open>pct\<close> is always a whole number from 0 to 100. Let \<open>x\<close> be the
  number the bar reads: the prop itself when it is a number, \<open>parseFloat\<close> of it when
  it is a string. If \<open>x\<close> is \<open>NaN\<close> or below 0 then \<open>pct = 0\<close>; if \<open>x\<close> is above 1 then
  \<open>pct = 100\<close>; and if \<open>x\<close> is a number \<open>c\<close> in \<open>[0, 1]\<close> then \<open>pct\<close> is \<open>Math.round\<close> of
  the double product \<open>c * 100\<close>: it differs from \<open>100 * c\<close> by at most \<open>1/2 + 2^-47\<close>,
  and it is \<open>round(100 * c)\<close> (a tie going up) whenever the product is exact.
\<close>

theorem ConfidenceBar_pct_total:
  "(\<exists>n. pct parseFloat v = Fin (of_int n) \<and> 0 \<le> n \<and> n \<le> 100)
   \<and> (\<forall>x. (v = Num x \<or> (\<exists>s. v = Str s \<and> parseFloat s = x)) \<longrightarrow>
        (x = NaN \<longrightarrow> pct parseFloat v = Fin 0)
      \<and> (js_lt x (Fin 0) \<longrightarrow> pct parseFloat v = Fin 0)
      \<and> (js_gt x (Fin 1) \<longrightarrow> pct parseFloat v = Fin 100)
      \<and> (\<forall>c. x = Fin c \<and> 0 \<le> c \<and> c \<le> 1 \<longrightarrow>
            pct parseFloat v = Fin (of_int (round (round_double (c * 100))))
          \<and> \<bar>of_int (round (round_double (c * 100))) - 100 * c\<bar> \<le> 1 / 2 + 1 / 2 ^ 47
          \<and> (round_double (c * 100) = c * 100 \<longrightarrow>
               pct parseFloat v = Fin (of_int (round (100 * c))))))"
proof (intro conjI allI impI)
  obtain c where c: "clamped parseFloat v = Fin c" "0 \<le> c" "c \<le> 1"
    using clamped_range by blast
  then have p: "pct parseFloat v = Fin (of_int (round (round_double (c * 100))))"
    by (rule pct_of_clamped)
  have "0 \<le> round (round_double (c * 100))"
    using percent_product(2) [OF c(2,3)] by (simp add: round_def)
  moreover have "round (round_double (c * 100)) \<le> 100"
  proof -
    have "round (round_double (c * 100)) \<le> round (100::rat)"
      using percent_product(3) [OF c(2,3)] by (rule round_mono)
    then show ?thesis by simp
  qed
  ultimately show "\<exists>n. pct parseFloat v = Fin (of_int n) \<and> 0 \<le> n \<and> n \<le> 100"
    using p by blast
next
  fix x
  assume "v = Num x \<or> (\<exists>s. v = Str s \<and> parseFloat s = x)" and "x = NaN"
  then have "numeric parseFloat v = NaN" by (auto simp: numeric_def)
  then have "clamped parseFloat v = Fin 0"
    by (simp add: clamped_def isNaN_def Math_min_def Math_max_def)
  then have "pct parseFloat v = Fin (of_int (round (round_double (0 * 100))))"
    by (rule pct_of_clamped) simp_all
  then show "pct parseFloat v = Fin 0" by (simp add: round_double_def)
next
  fix x
  assume "v = Num x \<or> (\<exists>s. v = Str s \<and> parseFloat s = x)" and low: "js_lt x (Fin 0)"
  then have "numeric parseFloat v = x" by (auto simp: numeric_def)
  then have "clamped parseFloat v = Fin 0"
    using low by (cases x) (auto simp: clamped_def isNaN_def Math_min_def Math_max_def)
  then have "pct parseFloat v = Fin (of_int (round (round_double (0 * 100))))"
    by (rule pct_of_clamped) simp_all
  then show "pct parseFloat v = Fin 0" by (simp add: round_double_def)
next
  fix x
  assume "v = Num x \<or> (\<exists>s. v = Str s \<and> parseFloat s = x)" and high: "js_gt x (Fin 1)"
  then have "numeric parseFloat v = x" by (auto simp: numeric_def)
  then have "clamped parseFloat v = Fin 1"
    using high by (cases x) (auto simp: clamped_def isNaN_def Math_min_def Math_max_def js_gt_def)
  then have "pct parseFloat v = Fin (of_int (round (round_double (1 * 100))))"
    by (rule pct_of_clamped) simp_all
  moreover have "round_double (of_int 100) = of_int 100"
    by (rule round_double_of_int) simp_all
  ultimately show "pct parseFloat v = Fin 100" by simp
next
  fix x c
  assume v: "v = Num x \<or> (\<exists>s. v = Str s \<and> parseFloat s = x)"
    and c: "x = Fin c \<and> 0 \<le> c \<and> c \<le> 1"
  then have "numeric parseFloat v = Fin c" by (auto simp: numeric_def)
  then have "clamped parseFloat v = Fin c" using c by (intro clamped_in_range) simp_all
  then show p: "pct parseFloat v = Fin (of_int (round (round_double (c * 100))))"
    using c by (intro pct_of_clamped) simp_all
  have "\<bar>of_int (round (round_double (c * 100))) - round_double (c * 100)\<bar> \<le> 1 / 2"
    by (rule of_int_round_abs_le)
  moreover have "\<bar>round_double (c * 100) - 100 * c\<bar> \<le> 1 / 2 ^ 47"
    using c by (intro percent_error) simp_all
  ultimately show "\<bar>of_int (round (round_double (c * 100))) - 100 * c\<bar> \<le> 1 / 2 + 1 / 2 ^ 47"
    by linarith
  assume "round_double (c * 100) = c * 100"
  then show "pct parseFloat v = Fin (of_int (round (100 * c)))"
    using p by (simp add: mult.commute)
qed

theorem ConfidenceBar_pct_total_witness:
  "pct (\<lambda>s. if s = ''0.5'' then Fin (1 / 2) else NaN) (Str ''0.5'') = Fin 50
   \<and> pct (\<lambda>s. if s = ''0.5'' then Fin (1 / 2) else NaN) (Str ''n/a'') = Fin 0
   \<and> pct (\<lambda>s. if s = ''0.5'' then Fin (1 / 2) else NaN) (Num (Fin 3)) = Fin 100
   \<and> pct (\<lambda>s. if s = ''0.5'' then Fin (1 / 2) else NaN) (Num (Fin (- 1))) = Fin 0"
proof -
  define pf :: "string \<Rightarrow> jsnum" where "pf = (\<lambda>s. if s = ''0.5'' then Fin (1 / 2) else NaN)"
  note reads = ConfidenceBar_pct_total [THEN conjunct2, rule_format]
  have r: "round_double (1 / 2 * 100) = 1 / 2 * 100"
    using round_double_of_int [of 50] by simp
  have "Str ''0.5'' = Num (Fin (1 / 2)) \<or> (\<exists>s. Str ''0.5'' = Str s \<and> pf s = Fin (1 / 2))"
    by (simp add: pf_def)
  from reads [OF this]
  have "Fin (1 / 2) = Fin (1 / 2) \<and> (0::rat) \<le> 1 / 2 \<and> (1 / 2 :: rat) \<le> 1 \<longrightarrow>
      round_double (1 / 2 * 100) = 1 / 2 * 100 \<longrightarrow>
      pct pf (Str ''0.5'') = Fin (of_int (round (100 * (1 / 2 :: rat))))"
    by blast
  with r have a: "pct pf (Str ''0.5'') = Fin 50" by simp
  have "Str ''n/a'' = Num NaN \<or> (\<exists>s. Str ''n/a'' = Str s \<and> pf s = NaN)"
    by (simp add: pf_def)
  from reads [OF this] have b: "pct pf (Str ''n/a'') = Fin 0" by blast
  have "Num (Fin 3) = Num (Fin 3) \<or> (\<exists>s. Num (Fin 3) = Str s \<and> pf s = Fin 3)"
    by simp
  from reads [OF this] have "js_gt (Fin 3) (Fin 1) \<longrightarrow> pct pf (Num (Fin 3)) = Fin 100" by blast
  then have c: "pct pf (Num (Fin 3)) = Fin 100" by (simp add: js_gt_def)
  have "Num (Fin (- 1)) = Num (Fin (- 1)) \<or> (\<exists>s. Num (Fin (- 1)) = Str s \<and> pf s = Fin (- 1))"
    by simp
  from reads [OF this]
  have "js_lt (Fin (- 1)) (Fin 0) \<longrightarrow> pct pf (Num (Fin (- 1))) = Fin 0" by blast
  then have d: "pct pf (Num (Fin (- 1))) = Fin 0" by simp
  show ?thesis using a b c d unfolding pf_def by blast
qed


section \<open>Properties of the backtest form\<close>

lemma digit_less:
  "digit c = Some a \<Longrightarrow> digit c' = Some b \<Longrightarrow> ((of_char c :: nat) < of_char c') = (a < b)"
  by (auto simp: digit_def Let_def split: if_splits)

lemma digit_eq:
  "digit c = Some a \<Longrightarrow> digit c' = Some b \<Longrightarrow> (c = c') = (a = b)"
proof -
  assume a: "digit c = Some a" and b: "digit c' = Some b"
  have "(of_char c :: nat) = 48 + a" using a by (auto simp: digit_def Let_def split: if_splits)
  moreover have "(of_char c' :: nat) = 48 + b" using b by (auto simp: digit_def Let_def split: if_splits)
  ultimately show ?thesis
    by (metis add_left_cancel of_char_eq_iff)
qed

lemma digit_bound: "digit c = Some a \<Longrightarrow> a < 10"
  by (auto simp: digit_def Let_def split: if_splits)


lemma lex10:
  fixes a0 a1 b0 b1 :: nat
  assumes "a1 < 10" "b1 < 10"
  shows "(a0 < b0 \<or> a0 = b0 \<and> (a1 < b1 \<or> a1 = b1 \<and> R))
       = (10 * a0 + a1 < 10 * b0 + b1 \<or> 10 * a0 + a1 = 10 * b0 + b1 \<and> R)"
proof (cases a0 b0 rule: linorder_cases)
  case less
  then have "10 * a0 + a1 < 10 * b0 + b1" using assms by linarith
  with less show ?thesis by simp
next
  case equal
  then show ?thesis by simp
next
  case greater
  then have "10 * b0 + b1 < 10 * a0 + a1" using assms by linarith
  with greater show ?thesis by simp
qed

lemma lex2:
  fixes a0 a1 b0 b1 :: nat
  assumes "a1 < 10" "b1 < 10"
  shows "(a0 < b0 \<or> a0 = b0 \<and> (a1 < b1 \<or> a1 = b1 \<and> R))
       = (10 * a0 + a1 < 10 * b0 + b1 \<or> 10 * a0 + a1 = 10 * b0 + b1 \<and> R)"
  using assms by (rule lex10)

lemma lex4:
  fixes a0 a1 a2 a3 b0 b1 b2 b3 :: nat
  assumes "a1 < 10" "a2 < 10" "a3 < 10" "b1 < 10" "b2 < 10" "b3 < 10"
  shows "(a0 < b0 \<or> a0 = b0 \<and> (a1 < b1 \<or> a1 = b1 \<and> (a2 < b2 \<or> a2 = b2 \<and> (a3 < b3 \<or> a3 = b3 \<and> R))))
       = (1000 * a0 + 100 * a1 + 10 * a2 + a3 < 1000 * b0 + 100 * b1 + 10 * b2 + b3
          \<or> 1000 * a0 + 100 * a1 + 10 * a2 + a3 = 1000 * b0 + 100 * b1 + 10 * b2 + b3 \<and> R)"
proof -
  have "(a0 < b0 \<or> a0 = b0 \<and> (a1 < b1 \<or> a1 = b1 \<and> (a2 < b2 \<or> a2 = b2 \<and> (a3 < b3 \<or> a3 = b3 \<and> R))))
      = (10 * a0 + a1 < 10 * b0 + b1 \<or> 10 * a0 + a1 = 10 * b0 + b1 \<and>
          (a2 < b2 \<or> a2 = b2 \<and> (a3 < b3 \<or> a3 = b3 \<and> R)))"
    by (rule lex10 [OF assms(1) assms(4)])
  also have "\<dots> = (10 * (10 * a0 + a1) + a2 < 10 * (10 * b0 + b1) + b2 \<or>
          10 * (10 * a0 + a1) + a2 = 10 * (10 * b0 + b1) + b2 \<and> (a3 < b3 \<or> a3 = b3 \<and> R))"
    by (rule lex10 [OF assms(2) assms(5)])
  also have "\<dots> = (10 * (10 * (10 * a0 + a1) + a2) + a3 < 10 * (10 * (10 * b0 + b1) + b2) + b3 \<or>
          10 * (10 * (10 * a0 + a1) + a2) + a3 = 10 * (10 * (10 * b0 + b1) + b2) + b3 \<and> R)"
    by (rule lex10 [OF assms(3) assms(6)])
  also have "\<dots> = (1000 * a0 + 100 * a1 + 10 * a2 + a3 < 1000 * b0 + 100 * b1 + 10 * b2 + b3
          \<or> 1000 * a0 + 100 * a1 + 10 * a2 + a3 = 1000 * b0 + 100 * b1 + 10 * b2 + b3 \<and> R)"
    by (simp add: algebra_simps)
  finally show ?thesis .
qed


lemma parse_iso_shape:
  assumes "parse_iso s = Some x"
  shows "\<exists>c0 c1 c2 c3 c5 c6 c8 c9 a0 a1 a2 a3 m0 m1 d0 d1.
           s = [c0, c1, c2, c3, CHR ''-'', c5, c6, CHR ''-'', c8, c9] \<and>
           digit c0 = Some a0 \<and> digit c1 = Some a1 \<and> digit c2 = Some a2 \<and> digit c3 = Some a3 \<and>
           digit c5 = Some m0 \<and> digit c6 = Some m1 \<and> digit c8 = Some d0 \<and> digit c9 = Some d1 \<and>
           year x = 1000 * a0 + 100 * a1 + 10 * a2 + a3 \<and>
           month x = 10 * m0 + m1 \<and> day x = 10 * d0 + d1 \<and>
           valid_date (year x) (month x) (day x)"
  using assms
  by (cases s rule: parse_iso.cases)
     (auto simp: num4_def num2_def split: if_splits option.splits prod.splits)

lemma js_str_less_dates:
  assumes "parse_iso s = Some x" and "parse_iso t = Some y"
  shows "js_str_less s t = date_less x y"
proof -
  from parse_iso_shape [OF assms(1)]
  obtain c0 c1 c2 c3 c5 c6 c8 c9 a0 a1 a2 a3 m0 m1 d0 d1 where
    s: "s = [c0, c1, c2, c3, CHR ''-'', c5, c6, CHR ''-'', c8, c9]" and
    sd: "digit c0 = Some a0" "digit c1 = Some a1" "digit c2 = Some a2" "digit c3 = Some a3"
        "digit c5 = Some m0" "digit c6 = Some m1" "digit c8 = Some d0" "digit c9 = Some d1" and
    x: "year x = 1000 * a0 + 100 * a1 + 10 * a2 + a3" "month x = 10 * m0 + m1"
       "day x = 10 * d0 + d1"
    by blast
  from parse_iso_shape [OF assms(2)]
  obtain e0 e1 e2 e3 e5 e6 e8 e9 b0 b1 b2 b3 n0 n1 f0 f1 where
    t: "t = [e0, e1, e2, e3, CHR ''-'', e5, e6, CHR ''-'', e8, e9]" and
    td: "digit e0 = Some b0" "digit e1 = Some b1" "digit e2 = Some b2" "digit e3 = Some b3"
        "digit e5 = Some n0" "digit e6 = Some n1" "digit e8 = Some f0" "digit e9 = Some f1" and
    y: "year y = 1000 * b0 + 100 * b1 + 10 * b2 + b3" "month y = 10 * n0 + n1"
       "day y = 10 * f0 + f1"
    by blast
  note bounds = sd [THEN digit_bound] td [THEN digit_bound]
  have "js_str_less s t =
      (a0 < b0 \<or> a0 = b0 \<and> (a1 < b1 \<or> a1 = b1 \<and> (a2 < b2 \<or> a2 = b2 \<and> (a3 < b3 \<or> a3 = b3 \<and>
        (m0 < n0 \<or> m0 = n0 \<and> (m1 < n1 \<or> m1 = n1 \<and>
          (d0 < f0 \<or> d0 = f0 \<and> (d1 < f1 \<or> d1 = f1 \<and> False))))))))"
    unfolding s t
    by (simp add: digit_less [OF sd(1) td(1)] digit_less [OF sd(2) td(2)]
        digit_less [OF sd(3) td(3)] digit_less [OF sd(4) td(4)]
        digit_less [OF sd(5) td(5)] digit_less [OF sd(6) td(6)]
        digit_less [OF sd(7) td(7)] digit_less [OF sd(8) td(8)]
        digit_eq [OF sd(1) td(1)] digit_eq [OF sd(2) td(2)]
        digit_eq [OF sd(3) td(3)] digit_eq [OF sd(4) td(4)]
        digit_eq [OF sd(5) td(5)] digit_eq [OF sd(6) td(6)]
        digit_eq [OF sd(7) td(7)] digit_eq [OF sd(8) td(8)])
  also have "\<dots> = (year x < year y \<or> year x = year y \<and>
        (month x < month y \<or> month x = month y \<and> (day x < day y \<or> day x = day y \<and> False)))"
    unfolding x y
    by (simp only: lex4 [OF bounds(2,3,4) bounds(10,11,12)] lex2 [OF bounds(6) bounds(14)]
        lex2 [OF bounds(8) bounds(16)])
  finally show ?thesis by (simp add: date_less_def)
qed


lemma days_in_month_le: "days_in_month y m \<le> 31"
  by (simp add: days_in_month_def)

lemma parse_iso_bounds:
  assumes "parse_iso s = Some d"
  shows "year d \<le> 9999" and "1 \<le> month d" and "month d \<le> 12" and "1 \<le> day d"
    and "day d \<le> 31" and "length s = 10"
proof -
  from parse_iso_shape [OF assms]
  obtain c0 c1 c2 c3 c5 c6 c8 c9 a0 a1 a2 a3 m0 m1 d0 d1 where
    s: "s = [c0, c1, c2, c3, CHR ''-'', c5, c6, CHR ''-'', c8, c9]" and
    sd: "digit c0 = Some a0" "digit c1 = Some a1" "digit c2 = Some a2" "digit c3 = Some a3" and
    y: "year d = 1000 * a0 + 100 * a1 + 10 * a2 + a3" and
    md: "month d = 10 * m0 + m1" "day d = 10 * d0 + d1" and
    v: "valid_date (year d) (month d) (day d)"
    by blast
  note b = sd [THEN digit_bound]
  show "year d \<le> 9999" unfolding y using b by linarith
  show "1 \<le> month d" "month d \<le> 12" "1 \<le> day d"
    using v by (simp_all add: valid_date_def)
  have "day d \<le> days_in_month (year d) (month d)" using v by (simp add: valid_date_def)
  then show "day d \<le> 31" using days_in_month_le [of "year d" "month d"] by linarith
  show "length s = 10" by (simp add: s)
qed

lemma digits_lower: "digits cs n = Some v \<Longrightarrow> n * 10 ^ length cs \<le> v"
proof (induction cs arbitrary: n)
  case Nil
  then show ?case by simp
next
  case (Cons c cs)
  then obtain a where a: "digit c = Some a" and rest: "digits cs (10 * n + a) = Some v"
    by (auto split: option.splits)
  have "n * 10 ^ length (c # cs) = (10 * n) * 10 ^ length cs" by simp
  also have "\<dots> \<le> (10 * n + a) * 10 ^ length cs" by (intro mult_right_mono) simp_all
  also have "\<dots> \<le> v" using rest by (rule Cons.IH)
  finally show ?case .
qed

lemma digit_zero: "digit c = Some 0 \<Longrightarrow> c = CHR ''0''"
proof -
  assume "digit c = Some 0"
  then have "(of_char c :: nat) = 48" by (auto simp: digit_def Let_def split: if_splits)
  also have "\<dots> = of_char CHR ''0''" by simp
  finally show ?thesis by (simp only: of_char_eq_iff)
qed

lemma parse_long_year_bounds:
  assumes "parse_long_year s = Some d"
  shows "10000 \<le> year d" and "11 \<le> length s"
proof -
  define ys where "ys = take (length s - 6) s"
  from assms have len: "11 \<le> length s" and hd: "hd s \<noteq> CHR ''0''"
    by (auto simp: parse_long_year_def split: if_splits)
  from assms len hd have y: "digits ys 0 = Some (year d)"
    unfolding parse_long_year_def ys_def
    by (auto split: if_splits list.splits option.splits)
  have l: "5 \<le> length ys" using len by (simp add: ys_def)
  then obtain c cs where ys: "ys = c # cs" by (cases ys) auto
  have "hd ys = hd s" unfolding ys_def using len by (intro hd_take) simp
  then have c: "c = hd s" by (simp add: ys)
  from y obtain a where a: "digit c = Some a" and rest: "digits cs a = Some (year d)"
    unfolding ys by (auto split: option.splits)
  have "a \<noteq> 0" using a hd c digit_zero [of c] by auto
  then have "1 * 10 ^ 4 \<le> a * 10 ^ length cs"
    using l unfolding ys by (intro mult_mono power_increasing) simp_all
  also have "\<dots> \<le> year d" using rest by (rule digits_lower)
  finally show "10000 \<le> year d" by simp
  show "11 \<le> length s" by (rule len)
qed

lemma input_date_iso: "parse_iso s = Some d \<Longrightarrow> input_date s = Some d"
  by (simp add: input_date_def)

text \<open>
  A date input's value that is not after a \<open>today\<close> with a four-digit year, or that has
  at most ten characters, has the form \<open>YYYY-MM-DD\<close>.
\<close>

lemma ten_characters:
  assumes "date_input_value v" and "v \<noteq> []" and "parse_iso today = Some t"
    and "max_ok today v \<or> length v \<le> 10"
  shows "\<exists>d. parse_iso v = Some d"
proof (rule ccontr)
  assume no: "\<nexists>d. parse_iso v = Some d"
  then have iso: "parse_iso v = None" by simp
  from assms(1,2) obtain d where d: "input_date v = Some d"
    by (auto simp: date_input_value_def split: option.splits)
  with iso have long: "parse_long_year v = Some d" by (simp add: input_date_def)
  note lb = parse_long_year_bounds [OF long]
  from assms(4) show False
  proof
    assume "max_ok today v"
    then have "\<not> date_less t d"
      using d input_date_iso [OF assms(3)] by (simp add: max_ok_def)
    then have "year d \<le> year t" by (auto simp: date_less_def)
    then show False using lb(1) parse_iso_bounds(1) [OF assms(3)] by linarith
  next
    assume "length v \<le> 10"
    then show False using lb(2) by linarith
  qed
qed

lemma sum_days_le: "sum_list (map (days_in_month y) [1..<m]) \<le> 31 * (m - 1)"
proof (induction m)
  case 0
  show ?case by simp
next
  case (Suc m)
  show ?case
  proof (cases "m = 0")
    case True
    then show ?thesis by simp
  next
    case False
    then have "[1..<Suc m] = [1..<m] @ [m]" by simp
    then have "sum_list (map (days_in_month y) [1..<Suc m])
        = sum_list (map (days_in_month y) [1..<m]) + days_in_month y m"
      by simp
    also have "\<dots> \<le> 31 * (m - 1) + 31"
      using Suc.IH days_in_month_le [of y m] by linarith
    also have "\<dots> = 31 * (Suc m - 1)" using False by simp
    finally show ?thesis .
  qed
qed

lemma day_number_bounds:
  assumes "year d \<le> 9999" and "month d \<le> 12" and "1 \<le> day d" and "day d \<le> 31"
  shows "0 \<le> day_number d" and "day_number d < 3660000"
proof -
  have l: "leap_years_before (year d) \<le> 2526"
  proof -
    have "leap_years_before (year d) \<le> (year d + 3) div 4 + (year d + 399) div 400"
      by (simp add: leap_years_before_def)
    moreover have "(year d + 3) div 4 \<le> 2500" using assms(1) by linarith
    moreover have "(year d + 399) div 400 \<le> 25" using assms(1) by linarith
    ultimately show ?thesis by linarith
  qed
  have "sum_list (map (days_in_month (year d)) [1..<month d]) \<le> 31 * (month d - 1)"
    by (rule sum_days_le)
  then have s: "sum_list (map (days_in_month (year d)) [1..<month d]) \<le> 341"
    using assms(2) by linarith
  show "0 \<le> day_number d" using assms(3) by (simp add: day_number_def)
  show "day_number d < 3660000"
    unfolding day_number_def using l s assms(1,4) by linarith
qed

lemma day_number_epoch: "day_number epoch = 719528"
  by (simp add: epoch_def day_number_def leap_years_before_def days_in_month_def upt_rec)

lemma Date_getTime_input:
  assumes "input_date s = Some d" and "\<bar>day_number d - day_number epoch\<bar> \<le> 100000000"
  shows "Date_getTime s = Fin (of_int ((day_number d - day_number epoch) * 86400000))"
proof -
  have "\<bar>(day_number d - day_number epoch) * 86400000\<bar> \<le> 8640000000000000"
    using assms(2) by (simp add: abs_mult)
  then show ?thesis
    by (simp add: Date_getTime_def assms(1) TimeClip_def)
qed

lemma iso_day_number:
  assumes "parse_iso s = Some d"
  shows "0 \<le> day_number d" and "day_number d < 3660000"
    and "\<bar>day_number d - day_number epoch\<bar> \<le> 100000000"
proof -
  note b = parse_iso_bounds [OF assms]
  note n = day_number_bounds [OF b(1) b(3) b(4) b(5)]
  show "0 \<le> day_number d" and "day_number d < 3660000" by (rule n)+
  show "\<bar>day_number d - day_number epoch\<bar> \<le> 100000000"
    unfolding day_number_epoch using n by (simp add: abs_le_iff)
qed

text \<open>
  The comparison \<open>yearRange > 5\<close>, for two days less than 100000000 days apart: the
  difference of the times is exact, and the rounded quotient exceeds 5 exactly when the
  days are more than 1825 apart.
\<close>

lemma year_range_exceeds:
  fixes de ds d0 :: int
  assumes "\<bar>de - ds\<bar> < 100000000"
  shows "js_gt (js_divide (js_minus (Fin (of_int ((de - d0) * 86400000)))
                                    (Fin (of_int ((ds - d0) * 86400000))))
                          (Fin (1000 * 60 * 60 * 24 * 365))) (Fin 5)
         = (5 * 365 < de - ds)"
proof -
  define n where "n = de - ds"
  define q :: rat where "q = of_int n / 365"
  have n: "\<bar>n\<bar> < 100000000" using assms by (simp add: n_def)
  have diff: "(of_int ((de - d0) * 86400000) - of_int ((ds - d0) * 86400000) :: rat)
          = of_int (n * 86400000)"
    by (simp add: n_def algebra_simps)
  have small: "\<bar>n * 86400000\<bar> < 2 ^ 53"
    using n by (simp add: abs_mult)
  have minus: "js_minus (Fin (of_int ((de - d0) * 86400000))) (Fin (of_int ((ds - d0) * 86400000)))
      = Fin (of_int (n * 86400000))"
    unfolding js_minus.simps diff using small by (rule to_double_int)
  have quot: "(of_int (n * 86400000) :: rat) / (1000 * 60 * 60 * 24 * 365) = q"
    by (simp add: q_def)
  have qn: "\<bar>q\<bar> \<le> of_int \<bar>n\<bar>"
  proof -
    have "\<bar>q\<bar> = \<bar>of_int n\<bar> / 365" by (simp add: q_def)
    also have "\<dots> \<le> \<bar>of_int n\<bar> / 1" by (intro divide_left_mono) simp_all
    finally show ?thesis by simp
  qed
  have "\<bar>n\<bar> < 2 ^ 53" using n by simp
  with qn have td: "to_double q = Fin (round_double q)" by (rule to_double_bounded)
  have divide: "js_divide (Fin (of_int (n * 86400000))) (Fin (1000 * 60 * 60 * 24 * 365))
      = Fin (round_double q)"
    unfolding js_divide_def using quot td by simp
  have key: "(5 < round_double q) = (5 * 365 < n)"
  proof (cases "5 * 365 < n")
    case False
    then have "n \<le> 1825" by simp
    then have "(of_int n :: rat) \<le> of_int 1825" by (simp only: of_int_le_iff)
    then have "q \<le> of_int 5" by (simp add: q_def)
    then have "round_double q \<le> of_int 5" by (rule round_double_le_int) simp_all
    with False show ?thesis by simp
  next
    case True
    then have "1826 \<le> n" by simp
    then have "(of_int 1826 :: rat) \<le> of_int n" by (simp only: of_int_le_iff)
    then have lo: "1826 / 365 \<le> q" by (simp add: q_def)
    then have pos: "0 < q" by linarith
    have "n < 100000000" using n by simp
    then have "(of_int n :: rat) < of_int 100000000" by (simp only: of_int_less_iff)
    then have "q < 100000000 / 365" by (simp add: q_def)
    also have "\<dots> < 2 powi (18 + 1)" by simp
    finally have "\<bar>round_double q - q\<bar> \<le> 2 powi (18 - 53)"
      using pos by (intro round_double_error_le) simp_all
    also have "(2::rat) powi (18 - 53) = 1 / 2 ^ 35"
      by (simp add: power_int_minus inverse_eq_divide)
    finally have "\<bar>round_double q - q\<bar> \<le> 1 / 2 ^ 35" .
    then have "q - 1 / 2 ^ 35 \<le> round_double q" by linarith
    moreover have "(5::rat) < 1826 / 365 - 1 / 2 ^ 35" by simp
    ultimately have "5 < round_double q" using lo by linarith
    with True show ?thesis by simp
  qed
  have "js_gt (js_divide (js_minus (Fin (of_int ((de - d0) * 86400000)))
                                    (Fin (of_int ((ds - d0) * 86400000))))
                          (Fin (1000 * 60 * 60 * 24 * 365))) (Fin 5)
      = (5 < round_double q)"
    unfolding minus divide by (simp add: js_gt_def)
  also have "\<dots> = (5 * 365 < n)" by (rule key)
  finally show ?thesis unfolding n_def .
qed

lemma year_range_dates:
  assumes "input_date s1 = Some s" and "input_date s2 = Some e"
    and "\<bar>day_number s - day_number epoch\<bar> \<le> 100000000"
    and "\<bar>day_number e - day_number epoch\<bar> \<le> 100000000"
    and "\<bar>day_number e - day_number s\<bar> < 100000000"
  shows "js_gt (js_divide (js_minus (Date_getTime s2) (Date_getTime s1))
                          (Fin (1000 * 60 * 60 * 24 * 365))) (Fin 5)
         = (5 * 365 < day_number e - day_number s)"
  unfolding Date_getTime_input [OF assms(1,3)] Date_getTime_input [OF assms(2,4)]
  using assms(5) by (rule year_range_exceeds)

lemma year_range_iso:
  assumes s: "parse_iso s1 = Some s" and e: "parse_iso s2 = Some e"
  shows "js_gt (js_divide (js_minus (Date_getTime s2) (Date_getTime s1))
                          (Fin (1000 * 60 * 60 * 24 * 365))) (Fin 5)
         = (5 * 365 < day_number e - day_number s)"
proof -
  note ns = iso_day_number [OF s] and ne = iso_day_number [OF e]
  have "\<bar>day_number e - day_number s\<bar> < 100000000"
    using ns(1,2) ne(1,2) by (simp add: abs_less_iff)
  with input_date_iso [OF s] input_date_iso [OF e] ns(3) ne(3)
  show ?thesis by (rule year_range_dates)
qed

lemma validate_on_dates:
  assumes s: "parse_iso (startDate st) = Some s" and e: "parse_iso (endDate st) = Some e"
    and t: "parse_iso today = Some t"
  shows "snd (validate today st) =
           (date_less s e \<and> \<not> date_less t e \<and> day_number e - day_number s \<le> 5 * 365 \<and>
            0 < initialCapital st)"
proof -
  have nonempty: "startDate st \<noteq> []" "endDate st \<noteq> []"
    using s e by auto
  show ?thesis
    using nonempty year_range_iso [OF s e]
    by (auto simp: validate_def Let_def js_str_less_dates [OF s e] js_str_less_dates [OF t e])
qed

lemma validate_range_error:
  assumes s: "parse_iso (startDate st) = Some s" and e: "parse_iso (endDate st) = Some e"
    and t: "parse_iso today = Some t"
    and "date_less s e" and "\<not> date_less t e" and "5 * 365 < day_number e - day_number s"
  shows "validate today st = (st\<lparr>formError := Some ''Date range cannot exceed 5 years''\<rparr>, False)"
proof -
  have nonempty: "startDate st \<noteq> []" "endDate st \<noteq> []"
    using s e by auto
  show ?thesis
    using nonempty year_range_iso [OF s e] assms(4,5,6)
    by (simp add: validate_def Let_def js_str_less_dates [OF s e] js_str_less_dates [OF t e])
qed

lemma validate_unset:
  assumes "startDate st = [] \<or> endDate st = []"
  shows "\<not> snd (validate today st)"
  using assms by (auto simp: validate_def)

lemma validate_accepted:
  assumes "snd (validate today st)"
  shows "validate today st = (st\<lparr>formError := None\<rparr>, True)"
  using assms by (auto simp: validate_def Let_def split: if_splits)

lemma handleSubmit_requests:
  "snd (handleSubmit today st) =
     (if snd (validate today st)
      then [TriggerBacktest (startDate st) (endDate st) (initialCapital st)] else [])"
  by (auto simp: handleSubmit_def validate_def Let_def split: prod.splits if_splits)

lemmas date_eval = num4_def num2_def digit_def valid_date_def days_in_month_def leap_def
  date_less_def day_number_def leap_years_before_def upt_rec


text \<open>
  C3, where the claim fails. (a) The code takes a year as 365 days: the five years
  from 2019-01-01 to 2024-01-01 hold a leap day and are 1826 days long. The form meets
  every condition of the claim (and the constraints of its inputs), and \<open>validate\<close>
  refuses it with "Date range cannot exceed 5 years"; no request is sent. (b) Dates are
  compared as strings: for the date-input values 10000-01-01 and 2023-12-31 the start
  is after the end, and \<open>validate\<close> returns true. (The start date being after today, the
  browser does not let a submission of that form reach \<open>validate\<close>.)
\<close>

theorem validate_five_years_counterexample:
  "input_date (startDate form_five_years) = Some \<lparr>year = 2019, month = 1, day = 1\<rparr> \<and>
   input_date (endDate form_five_years) = Some \<lparr>year = 2024, month = 1, day = 1\<rparr> \<and>
   input_date ''2024-06-01'' = Some \<lparr>year = 2024, month = 6, day = 1\<rparr> \<and>
   date_less \<lparr>year = 2019, month = 1, day = 1\<rparr> \<lparr>year = 2024, month = 1, day = 1\<rparr> \<and>
   \<not> date_less \<lparr>year = 2024, month = 6, day = 1\<rparr> \<lparr>year = 2024, month = 1, day = 1\<rparr> \<and>
   span_at_most_years 5 \<lparr>year = 2019, month = 1, day = 1\<rparr> \<lparr>year = 2024, month = 1, day = 1\<rparr> \<and>
   0 < initialCapital form_five_years \<and>
   constraints_ok ''2024-06-01'' form_five_years \<and>
   \<not> snd (validate ''2024-06-01'' form_five_years) \<and>
   formError (fst (validate ''2024-06-01'' form_five_years))
     = Some ''Date range cannot exceed 5 years'' \<and>
   snd (handleSubmit ''2024-06-01'' form_five_years) = [] \<and>
   date_input_value (startDate form_long_year) \<and>
   date_input_value (endDate form_long_year) \<and>
   input_date (startDate form_long_year) = Some \<lparr>year = 10000, month = 1, day = 1\<rparr> \<and>
   input_date (endDate form_long_year) = Some \<lparr>year = 2023, month = 12, day = 31\<rparr> \<and>
   date_less \<lparr>year = 2023, month = 12, day = 31\<rparr> \<lparr>year = 10000, month = 1, day = 1\<rparr> \<and>
   snd (validate ''2024-06-01'' form_long_year) \<and>
   \<not> constraints_ok ''2024-06-01'' form_long_year"
proof -
  have dates: "parse_iso (startDate form_five_years) = Some \<lparr>year = 2019, month = 1, day = 1\<rparr>"
    "parse_iso (endDate form_five_years) = Some \<lparr>year = 2024, month = 1, day = 1\<rparr>"
    "parse_iso ''2024-06-01'' = Some \<lparr>year = 2024, month = 6, day = 1\<rparr>"
    by (simp_all add: form_five_years_def initial_page_def date_eval)
  have conds: "date_less \<lparr>year = 2019, month = 1, day = 1\<rparr> \<lparr>year = 2024, month = 1, day = 1\<rparr>"
    "\<not> date_less \<lparr>year = 2024, month = 6, day = 1\<rparr> \<lparr>year = 2024, month = 1, day = 1\<rparr>"
    "span_at_most_years 5 \<lparr>year = 2019, month = 1, day = 1\<rparr> \<lparr>year = 2024, month = 1, day = 1\<rparr>"
    "0 < initialCapital form_five_years"
    by (simp_all add: date_less_def span_at_most_years_def form_five_years_def initial_page_def)
  have long: "5 * 365 < day_number \<lparr>year = 2024, month = 1, day = 1\<rparr>
      - day_number \<lparr>year = 2019, month = 1, day = 1\<rparr>"
    by (simp add: date_eval)
  have refused: "validate ''2024-06-01'' form_five_years
      = (form_five_years\<lparr>formError := Some ''Date range cannot exceed 5 years''\<rparr>, False)"
    using dates conds(1,2) long by (rule validate_range_error)
  have unsent: "snd (handleSubmit ''2024-06-01'' form_five_years) = []"
    by (simp add: handleSubmit_def refused)
  have ok: "constraints_ok ''2024-06-01'' form_five_years"
    using dates
    by (simp add: constraints_ok_def max_ok_def input_date_def step_ok_def date_less_def
        form_five_years_def initial_page_def)
  have a: "input_date (startDate form_five_years) = Some \<lparr>year = 2019, month = 1, day = 1\<rparr>
    \<and> input_date (endDate form_five_years) = Some \<lparr>year = 2024, month = 1, day = 1\<rparr>
    \<and> input_date ''2024-06-01'' = Some \<lparr>year = 2024, month = 6, day = 1\<rparr>
    \<and> date_less \<lparr>year = 2019, month = 1, day = 1\<rparr> \<lparr>year = 2024, month = 1, day = 1\<rparr>
    \<and> \<not> date_less \<lparr>year = 2024, month = 6, day = 1\<rparr> \<lparr>year = 2024, month = 1, day = 1\<rparr>
    \<and> span_at_most_years 5 \<lparr>year = 2019, month = 1, day = 1\<rparr> \<lparr>year = 2024, month = 1, day = 1\<rparr>
    \<and> 0 < initialCapital form_five_years
    \<and> constraints_ok ''2024-06-01'' form_five_years
    \<and> \<not> snd (validate ''2024-06-01'' form_five_years)
    \<and> formError (fst (validate ''2024-06-01'' form_five_years))
         = Some ''Date range cannot exceed 5 years''
    \<and> snd (handleSubmit ''2024-06-01'' form_five_years) = []"
    using dates [THEN input_date_iso] conds ok unsent by (simp add: refused)
  have s: "input_date (startDate form_long_year) = Some \<lparr>year = 10000, month = 1, day = 1\<rparr>"
    by (simp add: form_long_year_def initial_page_def input_date_def parse_long_year_def
        date_eval)
  have e: "parse_iso (endDate form_long_year) = Some \<lparr>year = 2023, month = 12, day = 31\<rparr>"
    by (simp add: form_long_year_def initial_page_def date_eval)
  have range: "js_gt (js_divide (js_minus (Date_getTime (endDate form_long_year))
                                   (Date_getTime (startDate form_long_year)))
                          (Fin (1000 * 60 * 60 * 24 * 365))) (Fin 5)
         = (5 * 365 < day_number \<lparr>year = 2023, month = 12, day = 31\<rparr>
                        - day_number \<lparr>year = 10000, month = 1, day = 1\<rparr>)"
    using s input_date_iso [OF e]
    by (rule year_range_dates) (simp_all add: day_number_epoch, simp_all add: date_eval)
  have accepted: "snd (validate ''2024-06-01'' form_long_year)"
    unfolding validate_def Let_def range
    by (simp add: form_long_year_def initial_page_def date_eval)
  have blocked: "\<not> constraints_ok ''2024-06-01'' form_long_year"
    using s dates(3) [THEN input_date_iso]
    by (simp add: constraints_ok_def max_ok_def date_less_def)
  have b: "date_input_value (startDate form_long_year)
    \<and> date_input_value (endDate form_long_year)
    \<and> input_date (startDate form_long_year) = Some \<lparr>year = 10000, month = 1, day = 1\<rparr>
    \<and> input_date (endDate form_long_year) = Some \<lparr>year = 2023, month = 12, day = 31\<rparr>
    \<and> date_less \<lparr>year = 2023, month = 12, day = 31\<rparr> \<lparr>year = 10000, month = 1, day = 1\<rparr>
    \<and> snd (validate ''2024-06-01'' form_long_year)
    \<and> \<not> constraints_ok ''2024-06-01'' form_long_year"
    using s input_date_iso [OF e] accepted blocked
    by (simp add: date_input_value_def date_less_def)
  from a b show ?thesis by blast
qed

text \<open>
  C3, as it holds. Let each date field be empty or hold a date, as a date input does,
  and let \<open>today\<close> have a four-digit year. For every form submission that the browser
  lets through (no date after today, the capital a whole number of steps from 1), and
  for every call with dates of at most ten characters, \<open>validate\<close> returns true if and
  only if both dates are set, the start date is strictly before the end date, the end
  date is not after today, the end date is at most 1825 days (5 times 365) after the
  start date, and the initial capital is strictly positive. When \<open>validate\<close> returns
  true, \<open>handleSubmit\<close> sends exactly one \<open>triggerBacktest\<close> request, with the form's
  dates and capital; when it returns false, no request is sent. A submission on the page
  sends that request exactly when the submit button is enabled, the inputs satisfy their
  constraints and \<open>validate\<close> returns true, and no request otherwise.
\<close>

theorem validate_accepts_iff:
  assumes "date_input_value (startDate st)" and "date_input_value (endDate st)"
    and "parse_iso today = Some t"
    and "constraints_ok today st \<or> (length (startDate st) \<le> 10 \<and> length (endDate st) \<le> 10)"
  shows "(snd (validate today st) \<longleftrightarrow>
            startDate st \<noteq> [] \<and> endDate st \<noteq> [] \<and>
            (\<exists>s e. input_date (startDate st) = Some s \<and> input_date (endDate st) = Some e \<and>
               date_less s e \<and> \<not> date_less t e \<and>
               day_number e - day_number s \<le> 5 * 365 \<and> 0 < initialCapital st))
       \<and> (snd (validate today st) \<longrightarrow>
            snd (handleSubmit today st)
              = [TriggerBacktest (startDate st) (endDate st) (initialCapital st)])
       \<and> (\<not> snd (validate today st) \<longrightarrow> snd (handleSubmit today st) = [])
       \<and> snd (step st (Submit today))
           = (if \<not> submit_disabled st \<and> constraints_ok today st \<and> snd (validate today st)
              then [TriggerBacktest (startDate st) (endDate st) (initialCapital st)] else [])"
proof -
  have iff: "snd (validate today st) \<longleftrightarrow>
            startDate st \<noteq> [] \<and> endDate st \<noteq> [] \<and>
            (\<exists>s e. input_date (startDate st) = Some s \<and> input_date (endDate st) = Some e \<and>
               date_less s e \<and> \<not> date_less t e \<and>
               day_number e - day_number s \<le> 5 * 365 \<and> 0 < initialCapital st)"
  proof (cases "startDate st = [] \<or> endDate st = []")
    case True
    then show ?thesis
      using validate_unset [OF True] by blast
  next
    case False
    then have ne: "startDate st \<noteq> []" "endDate st \<noteq> []" by simp_all
    have "max_ok today (startDate st) \<or> length (startDate st) \<le> 10"
      using assms(4) by (auto simp: constraints_ok_def)
    with assms(1) ne(1) assms(3) obtain s where s: "parse_iso (startDate st) = Some s"
      using ten_characters by blast
    have "max_ok today (endDate st) \<or> length (endDate st) \<le> 10"
      using assms(4) by (auto simp: constraints_ok_def)
    with assms(2) ne(2) assms(3) obtain e where e: "parse_iso (endDate st) = Some e"
      using ten_characters by blast
    show ?thesis
      using ne validate_on_dates [OF s e assms(3)] input_date_iso [OF s] input_date_iso [OF e]
      by auto
  qed
  have sent: "snd (validate today st) \<longrightarrow>
            snd (handleSubmit today st)
              = [TriggerBacktest (startDate st) (endDate st) (initialCapital st)]"
    by (simp add: handleSubmit_requests)
  have unsent: "\<not> snd (validate today st) \<longrightarrow> snd (handleSubmit today st) = []"
    by (simp add: handleSubmit_requests)
  have page: "snd (step st (Submit today))
           = (if \<not> submit_disabled st \<and> constraints_ok today st \<and> snd (validate today st)
              then [TriggerBacktest (startDate st) (endDate st) (initialCapital st)] else [])"
    by (simp add: handleSubmit_requests)
  show ?thesis
    using iff sent unsent page by blast
qed

theorem validate_accepts_iff_witness:
  "constraints_ok ''2024-06-01'' form_2023 \<and>
   snd (validate ''2024-06-01'' form_2023) \<and>
   snd (handleSubmit ''2024-06-01'' form_2023)
     = [TriggerBacktest ''2023-01-01'' ''2023-12-31'' 50001] \<and>
   snd (step form_2023 (Submit ''2024-06-01''))
     = [TriggerBacktest ''2023-01-01'' ''2023-12-31'' 50001] \<and>
   snd (validate ''2024-06-01'' (form_2023\<lparr>initialCapital := 50000\<rparr>)) \<and>
   snd (step (form_2023\<lparr>initialCapital := 50000\<rparr>) (Submit ''2024-06-01'')) = []"
proof -
  have s: "parse_iso (startDate form_2023) = Some \<lparr>year = 2023, month = 1, day = 1\<rparr>"
    by (simp add: form_2023_def initial_page_def date_eval)
  have e: "parse_iso (endDate form_2023) = Some \<lparr>year = 2023, month = 12, day = 31\<rparr>"
    by (simp add: form_2023_def initial_page_def date_eval)
  have t: "parse_iso ''2024-06-01'' = Some \<lparr>year = 2024, month = 6, day = 1\<rparr>"
    by (simp add: date_eval)
  have conds: "date_less \<lparr>year = 2023, month = 1, day = 1\<rparr> \<lparr>year = 2023, month = 12, day = 31\<rparr> \<and>
     \<not> date_less \<lparr>year = 2024, month = 6, day = 1\<rparr> \<lparr>year = 2023, month = 12, day = 31\<rparr> \<and>
     day_number \<lparr>year = 2023, month = 12, day = 31\<rparr>
       - day_number \<lparr>year = 2023, month = 1, day = 1\<rparr> \<le> 5 * 365 \<and>
     0 < initialCapital form_2023"
    by (simp add: form_2023_def initial_page_def date_eval)
  have fields: "startDate form_2023 = ''2023-01-01''" "endDate form_2023 = ''2023-12-31''"
    "initialCapital form_2023 = 50001"
    by (simp_all add: form_2023_def initial_page_def)
  have ne: "startDate form_2023 \<noteq> []" "endDate form_2023 \<noteq> []"
    by (simp_all add: fields)
  have ok: "constraints_ok ''2024-06-01'' form_2023"
    using input_date_iso [OF s] input_date_iso [OF e] input_date_iso [OF t]
    by (simp add: constraints_ok_def max_ok_def step_ok_def date_less_def fields(3))
  have inputs: "date_input_value (startDate form_2023)" "date_input_value (endDate form_2023)"
    using input_date_iso [OF s] input_date_iso [OF e] by (simp_all add: date_input_value_def)
  have through: "constraints_ok ''2024-06-01'' form_2023
      \<or> (length (startDate form_2023) \<le> 10 \<and> length (endDate form_2023) \<le> 10)"
    using ok by simp
  note claim = validate_accepts_iff [OF inputs t through]
  from claim ne input_date_iso [OF s] input_date_iso [OF e] conds
  have accepted: "snd (validate ''2024-06-01'' form_2023)"
    by blast
  with claim have "snd (handleSubmit ''2024-06-01'' form_2023)
      = [TriggerBacktest (startDate form_2023) (endDate form_2023) (initialCapital form_2023)]"
    by blast
  then have sent: "snd (handleSubmit ''2024-06-01'' form_2023)
      = [TriggerBacktest ''2023-01-01'' ''2023-12-31'' 50001]"
    by (simp only: fields)
  have enabled: "\<not> submit_disabled form_2023"
    by (simp add: submit_disabled_def isRunning_def form_2023_def initial_page_def)
  from claim have "snd (step form_2023 (Submit ''2024-06-01''))
      = (if \<not> submit_disabled form_2023 \<and> constraints_ok ''2024-06-01'' form_2023
            \<and> snd (validate ''2024-06-01'' form_2023)
         then [TriggerBacktest (startDate form_2023) (endDate form_2023)
                 (initialCapital form_2023)] else [])"
    by blast
  with enabled ok accepted have clicked: "snd (step form_2023 (Submit ''2024-06-01''))
      = [TriggerBacktest ''2023-01-01'' ''2023-12-31'' 50001]"
    by (simp only: fields simp_thms if_True)
  define form where "form = form_2023\<lparr>initialCapital := 50000\<rparr>"
  have fs: "parse_iso (startDate form) = Some \<lparr>year = 2023, month = 1, day = 1\<rparr>"
    and fe: "parse_iso (endDate form) = Some \<lparr>year = 2023, month = 12, day = 31\<rparr>"
    using s e by (simp_all add: form_def)
  have finputs: "date_input_value (startDate form)" "date_input_value (endDate form)"
    using inputs by (simp_all add: form_def)
  have short: "constraints_ok ''2024-06-01'' form
      \<or> (length (startDate form) \<le> 10 \<and> length (endDate form) \<le> 10)"
    by (simp add: form_def fields)
  have fne: "startDate form \<noteq> []" "endDate form \<noteq> []"
    using ne by (simp_all add: form_def)
  have fconds: "date_less \<lparr>year = 2023, month = 1, day = 1\<rparr> \<lparr>year = 2023, month = 12, day = 31\<rparr> \<and>
     \<not> date_less \<lparr>year = 2024, month = 6, day = 1\<rparr> \<lparr>year = 2023, month = 12, day = 31\<rparr> \<and>
     day_number \<lparr>year = 2023, month = 12, day = 31\<rparr>
       - day_number \<lparr>year = 2023, month = 1, day = 1\<rparr> \<le> 5 * 365 \<and>
     0 < initialCapital form"
    using conds by (simp add: form_def)
  have "\<lfloor>(50000 - 1) / 1000 :: rat\<rfloor> = 49"
    by (rule floor_unique) simp_all
  then have "\<not> step_ok 50000"
    by (simp add: step_ok_def)
  then have blocked: "\<not> constraints_ok ''2024-06-01'' form"
    by (simp add: constraints_ok_def form_def)
  note claim' = validate_accepts_iff [OF finputs t short]
  from claim' fne input_date_iso [OF fs] input_date_iso [OF fe] fconds
  have faccepted: "snd (validate ''2024-06-01'' form)"
    by blast
  from claim' have "snd (step form (Submit ''2024-06-01''))
      = (if \<not> submit_disabled form \<and> constraints_ok ''2024-06-01'' form
            \<and> snd (validate ''2024-06-01'' form)
         then [TriggerBacktest (startDate form) (endDate form) (initialCapital form)] else [])"
    by blast
  with blocked have unsent: "snd (step form (Submit ''2024-06-01'')) = []"
    by (simp only: simp_thms if_False)
  from accepted ok sent clicked faccepted unsent show ?thesis
    unfolding form_def by blast
qed


section \<open>Single flight on the Backtest page\<close>

lemma Date_getTime_long_year: "Date_getTime ''200000-01-01'' = Fin 6249223180800000"
  by (simp add: Date_getTime_def input_date_def parse_long_year_def TimeClip_def epoch_def
      date_eval)

text \<open>What a submission of the form for 2023 does, on a page whose button is enabled.\<close>

lemma submit_2023:
  assumes "startDate st = ''2023-01-01''" and "endDate st = ''2023-12-31''"
    and "initialCapital st = 50001" and "\<not> loading st" and "\<not> isRunning st"
  shows "step st (Submit ''2024-06-01'')
      = (st\<lparr>formError := None, loading := True, error := None, progress := None\<rparr>,
         [TriggerBacktest ''2023-01-01'' ''2023-12-31'' 50001])"
proof -
  have s: "parse_iso (startDate st) = Some \<lparr>year = 2023, month = 1, day = 1\<rparr>"
    by (simp add: assms(1) date_eval)
  have e: "parse_iso (endDate st) = Some \<lparr>year = 2023, month = 12, day = 31\<rparr>"
    by (simp add: assms(2) date_eval)
  have t: "parse_iso ''2024-06-01'' = Some \<lparr>year = 2024, month = 6, day = 1\<rparr>"
    by (simp add: date_eval)
  have ok: "constraints_ok ''2024-06-01'' st"
    using input_date_iso [OF s] input_date_iso [OF e] input_date_iso [OF t]
    by (simp add: constraints_ok_def max_ok_def step_ok_def date_less_def assms(3))
  have "snd (validate ''2024-06-01'' st)"
    unfolding validate_on_dates [OF s e t] by (simp add: assms(3) date_eval)
  then have "validate ''2024-06-01'' st = (st\<lparr>formError := None\<rparr>, True)"
    by (rule validate_accepted)
  then have "handleSubmit ''2024-06-01'' st
      = (st\<lparr>formError := None, loading := True, error := None, progress := None\<rparr>,
         [TriggerBacktest ''2023-01-01'' ''2023-12-31'' 50001])"
    by (simp add: handleSubmit_def assms(1,2,3))
  then show ?thesis
    using ok assms(4,5) by (simp add: submit_disabled_def)
qed

text \<open>
  C4, where the page fails it. The sequence \<open>late_poll_answer\<close> can happen: every answer
  in it answers a request in flight. After it, run-2 is active (the backend last
  reported it RUNNING, and nothing else was reported about it since), yet the page
  shows the late answer about run-1, COMPLETED: no interval polls run-2 any more, the
  submit button is enabled, and a submission sends a third trigger request.
\<close>

theorem late_poll_answer_second_trigger:
  "all_possible initial_browser late_poll_answer
   \<and> last_reported late_poll_answer ''run-2'' = Some ''RUNNING''
   \<and> last_reported late_poll_answer ''run-1'' = Some ''COMPLETED''
   \<and> progress (view (run_events initial_browser late_poll_answer)) = Some run_1_completed
   \<and> pollRef (view (run_events initial_browser late_poll_answer)) = None
   \<and> \<not> submit_disabled (view (run_events initial_browser late_poll_answer))
   \<and> possible (run_events initial_browser late_poll_answer) (Submit ''2024-06-01'')
   \<and> snd (step (view (run_events initial_browser late_poll_answer)) (Submit ''2024-06-01''))
       = [TriggerBacktest ''2023-01-01'' ''2023-12-31'' 50001]
   \<and> triggers_sent initial_browser (late_poll_answer @ [Submit ''2024-06-01''])
       = [TriggerBacktest ''2023-01-01'' ''2023-12-31'' 50001,
          TriggerBacktest ''2023-01-01'' ''2023-12-31'' 50001,
          TriggerBacktest ''2023-01-01'' ''2023-12-31'' 50001]"
proof -
  define form where "form = initial_page\<lparr>startDate := ''2023-01-01'', endDate := ''2023-12-31'',
    initialCapital := 50001\<rparr>"
  define trigger where "trigger = TriggerBacktest ''2023-01-01'' ''2023-12-31'' 50001"
  define poll where "poll = FetchBacktestProgress ''run-1''"
  define w1 where "w1 = \<lparr>view = initial_page\<lparr>startDate := ''2023-01-01''\<rparr>, in_flight = []\<rparr>"
  define w2 where "w2 = \<lparr>view = initial_page\<lparr>startDate := ''2023-01-01'',
    endDate := ''2023-12-31''\<rparr>, in_flight = []\<rparr>"
  define w3 where "w3 = \<lparr>view = form, in_flight = []\<rparr>"
  define w4 where "w4 = \<lparr>view = form\<lparr>formError := None, loading := True, error := None,
    progress := None\<rparr>, in_flight = [trigger]\<rparr>"
  define w5 where "w5 = \<lparr>view = form\<lparr>formError := None, loading := False, error := None,
    progress := Some run_1_running, pollRef := Some ''run-1''\<rparr>, in_flight = []\<rparr>"
  define w6 where "w6 = w5\<lparr>in_flight := [poll]\<rparr>"
  define w7 where "w7 = w5\<lparr>in_flight := [poll, poll]\<rparr>"
  define w8 where "w8 = \<lparr>view = form\<lparr>formError := None, loading := False, error := None,
    progress := Some run_1_completed, pollRef := None\<rparr>, in_flight = [poll]\<rparr>"
  define w9 where "w9 = \<lparr>view = form\<lparr>formError := None, loading := True, error := None,
    progress := None, pollRef := None\<rparr>, in_flight = [poll, trigger]\<rparr>"
  define w10 where "w10 = \<lparr>view = form\<lparr>formError := None, loading := False, error := None,
    progress := Some run_2_running, pollRef := Some ''run-2''\<rparr>, in_flight = [poll]\<rparr>"
  define w11 where "w11 = \<lparr>view = form\<lparr>formError := None, loading := False, error := None,
    progress := Some run_1_completed, pollRef := None\<rparr>, in_flight = []\<rparr>"
  note defs = form_def trigger_def poll_def initial_page_def initial_browser_def
    browser_step_def handleSubmit_resolved_def startPolling_def stopPolling_def
    poll_resolved_def poll_tick_def is_trigger_def run_1_running_def run_1_completed_def
    run_2_running_def isRunning_def
  have dates: "date_input_value ''2023-01-01''" "date_input_value ''2023-12-31''"
    "parse_iso ''2024-06-01'' \<noteq> None"
    by (simp_all add: date_input_value_def input_date_def date_eval)
  have submit3: "step (view w3) (Submit ''2024-06-01'') = (view w4, [trigger])"
    unfolding trigger_def
    by (subst submit_2023) (simp_all add: w3_def w4_def defs)
  have submit8: "step (view w8) (Submit ''2024-06-01'') = (view w9, [trigger])"
    unfolding trigger_def
    by (subst submit_2023) (simp_all add: w8_def w9_def defs)
  have submit11: "step (view w11) (Submit ''2024-06-01'')
      = (view w11\<lparr>formError := None, loading := True, error := None, progress := None\<rparr>,
         [trigger])"
    unfolding trigger_def
    by (subst submit_2023) (simp_all add: w11_def defs)
  have s1: "browser_step initial_browser (SetStartDate ''2023-01-01'') = w1"
    by (simp add: w1_def defs)
  have s2: "browser_step w1 (SetEndDate ''2023-12-31'') = w2"
    by (simp add: w1_def w2_def defs)
  have s3: "browser_step w2 (SetInitialCapital 50001) = w3"
    by (simp add: w2_def w3_def defs)
  have s4: "browser_step w3 (Submit ''2024-06-01'') = w4"
    unfolding browser_step_def submit3 by (simp add: w3_def w4_def)
  have s5: "browser_step w4 (TriggerResolved run_1_running) = w5"
    by (simp add: w4_def w5_def defs)
  have s6: "browser_step w5 Tick = w6"
    by (simp add: w5_def w6_def defs)
  have s7: "browser_step w6 Tick = w7"
    by (simp add: w5_def w6_def w7_def defs)
  have s8: "browser_step w7 (PollResolved run_1_completed) = w8"
    by (simp add: w7_def w5_def w8_def defs)
  have s9: "browser_step w8 (Submit ''2024-06-01'') = w9"
    unfolding browser_step_def submit8 by (simp add: w8_def w9_def)
  have s10: "browser_step w9 (TriggerResolved run_2_running) = w10"
    by (simp add: w9_def w10_def defs)
  have s11: "browser_step w10 (PollResolved run_1_completed) = w11"
    by (simp add: w10_def w11_def defs)
  note steps = s1 s2 s3 s4 s5 s6 s7 s8 s9 s10 s11
  have poss: "possible initial_browser (SetStartDate ''2023-01-01'')"
    "possible w1 (SetEndDate ''2023-12-31'')"
    "possible w2 (SetInitialCapital 50001)"
    "possible w3 (Submit ''2024-06-01'')"
    "possible w4 (TriggerResolved run_1_running)"
    "possible w5 Tick"
    "possible w6 Tick"
    "possible w7 (PollResolved run_1_completed)"
    "possible w8 (Submit ''2024-06-01'')"
    "possible w9 (TriggerResolved run_2_running)"
    "possible w10 (PollResolved run_1_completed)"
    "possible w11 (Submit ''2024-06-01'')"
    using dates
    by (simp_all add: w4_def w5_def w6_def w7_def w9_def w10_def defs)
  have sent: "filter is_trigger (snd (step (view initial_browser) (SetStartDate ''2023-01-01''))) = []"
    "filter is_trigger (snd (step (view w1) (SetEndDate ''2023-12-31''))) = []"
    "filter is_trigger (snd (step (view w2) (SetInitialCapital 50001))) = []"
    "filter is_trigger (snd (step (view w3) (Submit ''2024-06-01''))) = [trigger]"
    "filter is_trigger (snd (step (view w4) (TriggerResolved run_1_running))) = []"
    "filter is_trigger (snd (step (view w5) Tick)) = []"
    "filter is_trigger (snd (step (view w6) Tick)) = []"
    "filter is_trigger (snd (step (view w7) (PollResolved run_1_completed))) = []"
    "filter is_trigger (snd (step (view w8) (Submit ''2024-06-01''))) = [trigger]"
    "filter is_trigger (snd (step (view w9) (TriggerResolved run_2_running))) = []"
    "filter is_trigger (snd (step (view w10) (PollResolved run_1_completed))) = []"
    "filter is_trigger (snd (step (view w11) (Submit ''2024-06-01''))) = [trigger]"
    unfolding submit3 submit8 submit11
    by (simp_all add: w5_def w6_def poll_tick_def is_trigger_def trigger_def split: option.splits)
  have final: "run_events initial_browser late_poll_answer = w11"
    unfolding late_poll_answer_def by (simp only: run_events.simps steps)
  have p1: "all_possible initial_browser late_poll_answer"
    unfolding late_poll_answer_def by (simp only: all_possible.simps steps poss simp_thms)
  have p2: "last_reported late_poll_answer ''run-2'' = Some ''RUNNING''"
    "last_reported late_poll_answer ''run-1'' = Some ''COMPLETED''"
    by (simp_all add: last_reported_def late_poll_answer_def
        run_1_running_def run_1_completed_def run_2_running_def)
  have p3: "progress (view w11) = Some run_1_completed" "pollRef (view w11) = None"
    "\<not> submit_disabled (view w11)"
    by (simp_all add: w11_def submit_disabled_def defs)
  have p5: "triggers_sent initial_browser (late_poll_answer @ [Submit ''2024-06-01''])
      = [trigger, trigger, trigger]"
    unfolding late_poll_answer_def
    by (simp only: append.simps triggers_sent.simps steps sent)
  show ?thesis
    unfolding final using p1 p2 p3 poss(12) p5 submit11 unfolding trigger_def by simp
qed


section \<open>Properties of Memory Retrieval\<close>

lemma set_insert_by: "set (insert_by cmp x xs) = insert x (set xs)"
  by (induction xs) auto

lemma set_sort_by: "set (sort_by cmp xs) = set xs"
  unfolding sort_by_def by (induction xs) (auto simp: set_insert_by)

lemma set_dedup_by_id: "set (dedup_by_id seen rs) \<subseteq> set rs"
  by (induction rs arbitrary: seen) auto

lemma tier1_visible:
  assumes "r \<in> set (tier1 sc store c)"
  shows "visible sc r \<and> r \<in> set store"
proof -
  from assms have "r \<in> set (sort_by (\<lambda>a b. compare_rat (of_nat (created b)) (of_nat (created a)))
       (filter (\<lambda>r. visible sc r \<and> report_instrument r = cand_instrument c) store))"
    unfolding tier1_def by (rule in_set_takeD)
  then show ?thesis
    by (simp add: set_sort_by)
qed


lemma tier2_visible:
  assumes "r \<in> set (tier2 sc store c)"
  shows "visible sc r \<and> r \<in> set store"
proof -
  from assms have "r \<in> set (sort_by
        (\<lambda>a b. if cand_action c = SELL then compare_rat (outcome_of a) (outcome_of b)
               else compare_rat (outcome_of b) (outcome_of a))
       (filter (\<lambda>r. visible sc r \<and> report_instrument r \<noteq> cand_instrument c \<and>
                    report_sector r = cand_sector c \<and> report_action r = cand_action c \<and>
                    outcome_pnl r \<noteq> None) store))"
    unfolding tier2_def by (rule in_set_takeD)
  then show ?thesis
    by (simp add: set_sort_by)
qed

lemma tier3_visible:
  assumes "r \<in> set (tier3 tolerance sc store c)"
  shows "visible sc r \<and> r \<in> set store"
  using assms unfolding tier3_def by simp

lemma retrieve_reports_visible:
  assumes "r \<in> set (retrieve_reports tolerance sc store c)"
  shows "visible sc r \<and> r \<in> set store"
proof -
  from assms have "r \<in> set (dedup_by_id []
       (tier1 sc store c @ tier2 sc store c @ tier3 tolerance sc store c))"
    unfolding retrieve_reports_def by (rule in_set_takeD)
  then have "r \<in> set (tier1 sc store c @ tier2 sc store c @ tier3 tolerance sc store c)"
    using set_dedup_by_id by blast
  then consider "r \<in> set (tier1 sc store c)" | "r \<in> set (tier2 sc store c)"
    | "r \<in> set (tier3 tolerance sc store c)"
    by auto
  then show ?thesis
    using tier1_visible tier2_visible tier3_visible by cases blast+
qed

text \<open>
  C2: backtest memory isolation. Whatever the store holds, whatever the candidate, and
  under whatever scope Memory Retrieval is invoked, every item it returns is the summary
  of a report of the store that is visible in that scope. So a report tagged
  \<open>is_backtest\<close> with run id \<open>A\<close> is returned neither under live scope nor under any
  other run \<open>B\<close>, and an untagged (live) report is returned under no backtest run's
  scope. (Memory Retrieval returns summaries of decision reports only; a Trade is never
  among them.)
\<close>

theorem memory_isolation:
  "(\<forall>item \<in> set (memory_retrieval tolerance sc store c).
      \<exists>r \<in> set store. item = (report_id r, summarise r) \<and> visible sc r) \<and>
   (\<forall>r \<in> set (retrieve_reports tolerance sc store c).
      (is_backtest r \<longrightarrow> sc \<noteq> Live \<and> (\<forall>B. sc = Backtest B \<longrightarrow> report_backtest_run r = Some B)) \<and>
      (\<not> is_backtest r \<longrightarrow> sc = Live))"
proof (intro conjI ballI)
  fix item
  assume "item \<in> set (memory_retrieval tolerance sc store c)"
  then obtain r where r: "r \<in> set (retrieve_reports tolerance sc store c)"
    and item: "item = (report_id r, summarise r)"
    by (auto simp: memory_retrieval_def)
  from retrieve_reports_visible [OF r] item
  show "\<exists>r \<in> set store. item = (report_id r, summarise r) \<and> visible sc r"
    by blast
next
  fix r
  assume "r \<in> set (retrieve_reports tolerance sc store c)"
  then have vis: "visible sc r"
    using retrieve_reports_visible by blast
  then show "is_backtest r \<longrightarrow>
      sc \<noteq> Live \<and> (\<forall>B. sc = Backtest B \<longrightarrow> report_backtest_run r = Some B)"
    by (cases sc) auto
  from vis show "\<not> is_backtest r \<longrightarrow> sc = Live"
    by (cases sc) auto
qed



theorem memory_isolation_witness:
  "map fst (memory_retrieval 5 Live sample_store sample_candidate) = [1] \<and>
   map fst (memory_retrieval 5 (Backtest ''run-A'') sample_store sample_candidate) = [2] \<and>
   map fst (memory_retrieval 5 (Backtest ''run-B'') sample_store sample_candidate) = [3] \<and>
   sample_report 2 True (Some ''run-A'')
     \<in> set (retrieve_reports 5 (Backtest ''run-A'') sample_store sample_candidate) \<and>
   is_backtest (sample_report 2 True (Some ''run-A'')) \<and>
   report_backtest_run (sample_report 2 True (Some ''run-A'')) = Some ''run-A''"
proof -
  have live: "retrieve_reports 5 Live sample_store sample_candidate = [sample_report 1 False None]"
    by (simp add: retrieve_reports_def tier1_def tier2_def tier3_def sort_by_def
        sample_store_def sample_report_def sample_candidate_def compare_rat_def)
  have a: "retrieve_reports 5 (Backtest ''run-A'') sample_store sample_candidate
      = [sample_report 2 True (Some ''run-A'')]"
    by (simp add: retrieve_reports_def tier1_def tier2_def tier3_def sort_by_def
        sample_store_def sample_report_def sample_candidate_def compare_rat_def)
  have b: "retrieve_reports 5 (Backtest ''run-B'') sample_store sample_candidate
      = [sample_report 3 True (Some ''run-B'')]"
    by (simp add: retrieve_reports_def tier1_def tier2_def tier3_def sort_by_def
        sample_store_def sample_report_def sample_candidate_def compare_rat_def)
  have member: "sample_report 2 True (Some ''run-A'')
     \<in> set (retrieve_reports 5 (Backtest ''run-A'') sample_store sample_candidate)"
    by (simp add: a)
  from memory_isolation [of 5 "Backtest ''run-A''" sample_store sample_candidate] member
  have tagged: "is_backtest (sample_report 2 True (Some ''run-A'')) \<longrightarrow>
     report_backtest_run (sample_report 2 True (Some ''run-A'')) = Some ''run-A''"
    by blast
  have bt: "is_backtest (sample_report 2 True (Some ''run-A''))"
    by (simp add: sample_report_def)
  have ids: "map fst (memory_retrieval 5 Live sample_store sample_candidate) = [1]"
    "map fst (memory_retrieval 5 (Backtest ''run-A'') sample_store sample_candidate) = [2]"
    "map fst (memory_retrieval 5 (Backtest ''run-B'') sample_store sample_candidate) = [3]"
    by (simp_all add: memory_retrieval_def live a b sample_report_def)
  from tagged bt have "report_backtest_run (sample_report 2 True (Some ''run-A'')) = Some ''run-A''"
    by blast
  with ids member bt show ?thesis
    by blast
qed


section \<open>Properties of the Risk Engine\<close>

lemma side_total_append:
  "side_total side (ts @ us) = side_total side ts + side_total side us"
  by (simp add: side_total_def)

lemma side_total_single:
  "side_total side [t] = (if trade_side t = side then trade_value t else 0)"
  by (simp add: side_total_def)

lemma process_sell_inv: "sell_inv c0 st \<Longrightarrow> sell_inv c0 (process_sell cfg st p)"
  by (auto simp: sell_inv_def process_sell_def reject_def side_total_append side_total_single
      split: option.splits)

lemma foldl_process_sell_inv:
  "sell_inv c0 st \<Longrightarrow> sell_inv c0 (foldl (process_sell cfg) st ps)"
  by (induction ps arbitrary: st) (simp_all add: process_sell_inv)

lemma after_sells_inv: "sell_inv (cash pf) (after_sells cfg pf ps)"
  unfolding after_sells_def
  by (rule foldl_process_sell_inv) (simp add: sell_inv_def initial_state_def side_total_def)

lemma process_buy_cash_inv:
  assumes inv: "cash_inv c1 s1 st"
  shows "cash_inv c1 s1 (process_buy cfg pv st p)"
proof -
  define target where "target = min (suggested_allocation p) (max_position_pct cfg) * pv"
  define val where "val = (if available_cash st < target then available_cash st else target)"
  have val_cash: "val \<le> available_cash st"
    by (simp add: val_def)
  show ?thesis
    using inv val_cash
    unfolding cash_inv_def process_buy_def reject_def Let_def target_def [symmetric]
      val_def [symmetric]
    by (auto simp: side_total_append side_total_single)
qed

lemma target_bound:
  fixes pv :: rat
  assumes "0 \<le> pv"
  shows "min sa mp * pv \<le> mp * pv"
  using assms by (simp add: mult_right_mono)

lemma process_buy_cap_inv:
  assumes pv: "0 \<le> pv" and inv: "cap_inv cfg pv st"
  shows "cap_inv cfg pv (process_buy cfg pv st p)"
proof -
  define target where "target = min (suggested_allocation p) (max_position_pct cfg) * pv"
  define val where "val = (if available_cash st < target then available_cash st else target)"
  have val_target: "val \<le> target"
    by (simp add: val_def)
  have val_cap: "val \<le> max_position_pct cfg * pv"
    using val_target target_bound [OF pv] unfolding target_def by (rule order_trans)
  show ?thesis
    using inv val_cap
    unfolding cap_inv_def process_buy_def reject_def Let_def target_def [symmetric]
      val_def [symmetric]
    by auto
qed

lemma foldl_process_buy_cash_inv:
  "cash_inv c1 s1 st \<Longrightarrow> cash_inv c1 s1 (foldl (process_buy cfg pv) st ps)"
  by (induction ps arbitrary: st) (simp_all add: process_buy_cash_inv)

lemma foldl_process_buy_cap_inv:
  "0 \<le> pv \<Longrightarrow> cap_inv cfg pv st \<Longrightarrow> cap_inv cfg pv (foldl (process_buy cfg pv) st ps)"
  by (induction ps arbitrary: st) (simp_all add: process_buy_cap_inv)

lemma process_sell_no_buy:
  "cap_inv cfg pv st \<Longrightarrow> cap_inv cfg pv (process_sell cfg st p)"
  by (auto simp: cap_inv_def process_sell_def reject_def split: option.splits)

lemma after_sells_cap_inv: "cap_inv cfg pv (after_sells cfg pf ps)"
proof -
  have "cap_inv cfg pv st \<Longrightarrow> cap_inv cfg pv (foldl (process_sell cfg) st qs)" for st qs
    by (induction qs arbitrary: st) (simp_all add: process_sell_no_buy)
  moreover have "cap_inv cfg pv (initial_state pf)"
    by (simp add: cap_inv_def initial_state_def)
  ultimately show ?thesis
    unfolding after_sells_def by blast
qed

lemma verdicts_process_sell:
  "prop_action p = SELL \<Longrightarrow>
     verdicts (process_sell cfg st p) = verdicts st + {#proposal_key p#}"
  by (simp add: verdicts_def process_sell_def reject_def trade_key_def rejection_key_def
      proposal_key_def split: option.splits)

lemma verdicts_process_buy:
  "prop_action p = BUY \<Longrightarrow>
     verdicts (process_buy cfg pv st p) = verdicts st + {#proposal_key p#}"
  by (simp add: verdicts_def process_buy_def reject_def trade_key_def rejection_key_def
      proposal_key_def Let_def)

lemma verdicts_foldl_sell:
  "\<forall>p \<in> set ps. prop_action p = SELL \<Longrightarrow>
     verdicts (foldl (process_sell cfg) st ps) = verdicts st + mset (map proposal_key ps)"
  by (induction ps arbitrary: st) (simp_all add: verdicts_process_sell)

lemma verdicts_foldl_buy:
  "\<forall>p \<in> set ps. prop_action p = BUY \<Longrightarrow>
     verdicts (foldl (process_buy cfg pv) st ps) = verdicts st + mset (map proposal_key ps)"
  by (induction ps arbitrary: st) (simp_all add: verdicts_process_buy)

lemma mset_buys_of: "mset (buys_of ps) = mset (filter (\<lambda>p. prop_action p = BUY) ps)"
  unfolding buys_of_def by (rule mset_sort_by)

lemma set_buys_of: "set (buys_of ps) = {p \<in> set ps. prop_action p = BUY}"
  using mset_buys_of [of ps, THEN arg_cong [where f = set_mset]] by simp

lemma partition_keys:
  "mset (map proposal_key (sells_of ps)) + mset (map proposal_key (buys_of ps))
     = mset (map proposal_key (filter (\<lambda>p. prop_action p \<noteq> HOLD) ps))"
proof -
  have "mset (filter (\<lambda>p. prop_action p = SELL) ps) + mset (filter (\<lambda>p. prop_action p = BUY) ps)
        = mset (filter (\<lambda>p. prop_action p \<noteq> HOLD) ps)"
  proof (induction ps)
    case Nil
    show ?case by simp
  next
    case (Cons p ps)
    then show ?case by (cases "prop_action p") simp_all
  qed
  then have "image_mset proposal_key (mset (sells_of ps) + mset (buys_of ps))
      = image_mset proposal_key (mset (filter (\<lambda>p. prop_action p \<noteq> HOLD) ps))"
    by (simp only: sells_of_def mset_buys_of)
  then show ?thesis by simp
qed

text \<open>
  The value sold and the value of the positions still held that a SELL proposal names
  add up to the same amount through the SELL phase.
\<close>

lemma sum_filter_remove1:
  fixes f :: "'a \<Rightarrow> rat"
  assumes "x \<in> set xs" and "P x"
  shows "sum_list (map f (filter P (remove1 x xs))) = sum_list (map f (filter P xs)) - f x"
proof -
  have "x \<in> set (filter P xs)" using assms by simp
  then have "sum_list (map f (filter P xs)) = f x + sum_list (map f (remove1 x (filter P xs)))"
    by (rule sum_list_map_remove1)
  then show ?thesis by (simp add: filter_remove1)
qed

lemma process_sell_proceeds:
  assumes "prop_instrument p \<in> N"
  shows "side_total SELL (approved (process_sell cfg st p))
           + sum_list (map (holding_value cfg) (filter (\<lambda>h. held_instrument h \<in> N)
               (still_held (process_sell cfg st p))))
         = side_total SELL (approved st)
           + sum_list (map (holding_value cfg) (filter (\<lambda>h. held_instrument h \<in> N)
               (still_held st)))"
proof (cases "find (\<lambda>h. held_instrument h = prop_instrument p) (still_held st)")
  case None
  then show ?thesis by (simp add: process_sell_def reject_def)
next
  case (Some h)
  then have h: "h \<in> set (still_held st)" and n: "held_instrument h \<in> N"
    using assms by (auto simp: find_Some_iff)
  show ?thesis
    using Some sum_filter_remove1 [of h "still_held st" "\<lambda>h. held_instrument h \<in> N"
        "holding_value cfg", OF h n]
    by (simp add: process_sell_def side_total_append side_total_single holding_value_def)
qed

lemma process_sell_held: "set (still_held (process_sell cfg st p)) \<subseteq> set (still_held st)"
proof (cases "find (\<lambda>h. held_instrument h = prop_instrument p) (still_held st)")
  case None
  then show ?thesis by (simp add: process_sell_def reject_def)
next
  case (Some h)
  then show ?thesis
    using set_remove1_subset [of h "still_held st"] by (simp add: process_sell_def)
qed

lemma foldl_process_sell_held:
  "set (still_held (foldl (process_sell cfg) st ps)) \<subseteq> set (still_held st)"
proof (induction ps arbitrary: st)
  case Nil
  show ?case by simp
next
  case (Cons p ps)
  have "set (still_held (foldl (process_sell cfg) (process_sell cfg st p) ps))
      \<subseteq> set (still_held (process_sell cfg st p))"
    by (rule Cons.IH)
  also have "\<dots> \<subseteq> set (still_held st)" by (rule process_sell_held)
  finally show ?case by simp
qed

lemma foldl_process_sell_proceeds:
  assumes "\<forall>p \<in> set ps. prop_instrument p \<in> N"
  shows "side_total SELL (approved (foldl (process_sell cfg) st ps))
           + sum_list (map (holding_value cfg) (filter (\<lambda>h. held_instrument h \<in> N)
               (still_held (foldl (process_sell cfg) st ps))))
         = side_total SELL (approved st)
           + sum_list (map (holding_value cfg) (filter (\<lambda>h. held_instrument h \<in> N)
               (still_held st)))"
  using assms
proof (induction ps arbitrary: st)
  case Nil
  show ?case by simp
next
  case (Cons p ps)
  then have p: "prop_instrument p \<in> N" and rest: "\<forall>p \<in> set ps. prop_instrument p \<in> N"
    by simp_all
  show ?case
    using Cons.IH [OF rest, of "process_sell cfg st p"] process_sell_proceeds [OF p, of cfg st]
    by simp
qed

lemma after_sells_proceeds:
  assumes "\<forall>h \<in> set (open_positions pf). 0 \<le> holding_value cfg h"
  shows "side_total SELL (approved (after_sells cfg pf ps)) \<le> sale_proceeds cfg pf ps"
proof -
  define N where "N = prop_instrument ` set (sells_of ps)"
  define st where "st = after_sells cfg pf ps"
  have "\<forall>p \<in> set (sells_of ps). prop_instrument p \<in> N" by (simp add: N_def)
  from foldl_process_sell_proceeds [OF this, of cfg "initial_state pf"]
  have eq: "side_total SELL (approved st)
        + sum_list (map (holding_value cfg) (filter (\<lambda>h. held_instrument h \<in> N) (still_held st)))
      = sale_proceeds cfg pf ps"
    by (simp add: st_def after_sells_def initial_state_def side_total_def sale_proceeds_def N_def)
  have "set (still_held st) \<subseteq> set (open_positions pf)"
    unfolding st_def after_sells_def
    using foldl_process_sell_held [of cfg "initial_state pf" "sells_of ps"]
    by (simp add: initial_state_def)
  then have "\<forall>h \<in> set (filter (\<lambda>h. held_instrument h \<in> N) (still_held st)).
      0 \<le> holding_value cfg h"
    using assms by auto
  then have "0 \<le> sum_list (map (holding_value cfg)
      (filter (\<lambda>h. held_instrument h \<in> N) (still_held st)))"
    by (intro sum_list_nonneg) auto
  with eq show ?thesis unfolding st_def by linarith
qed

text \<open>Only an instrument held at the start is sold.\<close>

lemma process_sell_sold_inv: "sold_inv pf st \<Longrightarrow> sold_inv pf (process_sell cfg st p)"
proof (cases "find (\<lambda>h. held_instrument h = prop_instrument p) (still_held st)")
  case None
  assume "sold_inv pf st"
  with None show ?thesis by (simp add: sold_inv_def process_sell_def reject_def)
next
  case (Some h)
  assume inv: "sold_inv pf st"
  from Some have h: "h \<in> set (still_held st)" and i: "held_instrument h = prop_instrument p"
    by (auto simp: find_Some_iff)
  then have "prop_instrument p \<in> held_instrument ` set (open_positions pf)"
    using inv unfolding sold_inv_def by (metis image_eqI subsetD)
  moreover have "set (remove1 h (still_held st)) \<subseteq> set (open_positions pf)"
    using inv set_remove1_subset [of h "still_held st"] unfolding sold_inv_def by blast
  ultimately show ?thesis
    using inv Some by (auto simp: sold_inv_def process_sell_def)
qed

lemma process_buy_sold_inv: "sold_inv pf st \<Longrightarrow> sold_inv pf (process_buy cfg pv st p)"
  by (auto simp: sold_inv_def process_buy_def reject_def Let_def)

lemma foldl_process_sell_sold_inv:
  "sold_inv pf st \<Longrightarrow> sold_inv pf (foldl (process_sell cfg) st ps)"
  by (induction ps arbitrary: st) (simp_all add: process_sell_sold_inv)

lemma foldl_process_buy_sold_inv:
  "sold_inv pf st \<Longrightarrow> sold_inv pf (foldl (process_buy cfg pv) st ps)"
  by (induction ps arbitrary: st) (simp_all add: process_buy_sold_inv)

lemma count_keys: "count (mset (map f xs)) k = length (filter (\<lambda>x. f x = k) xs)"
  by (induction xs) simp_all

lemma length_filter_filter: "length (filter P (filter Q xs)) \<le> length (filter P xs)"
  by (induction xs) simp_all

lemma sum_list_at_most_one:
  fixes f :: "'a \<Rightarrow> rat"
  assumes "length xs \<le> 1" and "\<forall>x \<in> set xs. f x \<le> c" and "0 \<le> c"
  shows "sum_list (map f xs) \<le> c"
proof (cases xs)
  case Nil
  then show ?thesis using assms(3) by simp
next
  case (Cons x ys)
  with assms(1) have "ys = []" by simp
  with Cons assms(2) show ?thesis by simp
qed


text \<open>
  C1, as it holds of the engine of section 4.2. Every BUY and SELL proposal is answered
  with exactly one verdict, approved or rejected, about its instrument and side. For
  every portfolio and every batch, the sum of the values of the approved BUY trades never
  exceeds the cash available at the start of the batch plus the value of the approved
  SELL trades of the same batch (and nothing is bought when that sum is not positive),
  which, the held positions having non-negative values, is at most the value of the held
  positions that the SELL proposals name. The portfolio value being non-negative, no
  approved BUY trade exceeds \<open>max_position_pct\<close> of the portfolio value; and the
  resulting position in an instrument that was not held at the start and that at most
  one BUY proposal of the batch names does not exceed it either.
\<close>

theorem risk_validate_bounds:
  "side_total BUY (fst (risk_validate cfg pf ps))
     \<le> max 0 (cash pf + side_total SELL (fst (risk_validate cfg pf ps))) \<and>
   ((\<forall>h \<in> set (open_positions pf). 0 \<le> holding_value cfg h) \<longrightarrow>
      side_total SELL (fst (risk_validate cfg pf ps)) \<le> sale_proceeds cfg pf ps \<and>
      side_total BUY (fst (risk_validate cfg pf ps))
        \<le> max 0 (cash pf + sale_proceeds cfg pf ps)) \<and>
   (0 \<le> portfolio_value pf \<longrightarrow>
      (\<forall>t \<in> set (fst (risk_validate cfg pf ps)). trade_side t = BUY \<longrightarrow>
         trade_value t \<le> max_position_pct cfg * portfolio_value pf)) \<and>
   (0 \<le> portfolio_value pf \<and> 0 \<le> max_position_pct cfg \<and>
    i \<notin> held_instrument ` set (open_positions pf) \<and>
    length (filter (\<lambda>p. proposal_key p = (i, BUY)) ps) \<le> 1 \<longrightarrow>
      position_value cfg pf (fst (risk_validate cfg pf ps)) i
        \<le> max_position_pct cfg * portfolio_value pf) \<and>
   mset (map trade_key (fst (risk_validate cfg pf ps)))
       + mset (map rejection_key (snd (risk_validate cfg pf ps)))
     = mset (map proposal_key (filter (\<lambda>p. prop_action p \<noteq> HOLD) ps))"
proof -
  define st1 where "st1 = after_sells cfg pf ps"
  define st2 where "st2 = foldl (process_buy cfg (portfolio_value pf)) st1 (buys_of ps)"
  have out: "risk_validate cfg pf ps = (approved st2, rejected st2)"
    by (simp add: risk_validate_def st2_def st1_def Let_def)
  have sold: "sell_inv (cash pf) st1"
    unfolding st1_def by (rule after_sells_inv)
  then have "cash_inv (available_cash st1) (side_total SELL (approved st1)) st1"
    by (simp add: sell_inv_def cash_inv_def)
  then have bought: "cash_inv (available_cash st1) (side_total SELL (approved st1)) st2"
    unfolding st2_def by (rule foldl_process_buy_cash_inv)
  have same: "side_total SELL (approved st2) = side_total SELL (approved st1)"
    using bought by (simp add: cash_inv_def)
  have start: "available_cash st1 = cash pf + side_total SELL (approved st2)"
    using sold bought by (simp add: sell_inv_def cash_inv_def)
  have total: "side_total BUY (approved st2)
      \<le> max 0 (cash pf + side_total SELL (approved st2))"
    using bought start unfolding cash_inv_def by linarith
  have proceeds: "(\<forall>h \<in> set (open_positions pf). 0 \<le> holding_value cfg h) \<longrightarrow>
      side_total SELL (approved st2) \<le> sale_proceeds cfg pf ps \<and>
      side_total BUY (approved st2) \<le> max 0 (cash pf + sale_proceeds cfg pf ps)"
  proof
    assume "\<forall>h \<in> set (open_positions pf). 0 \<le> holding_value cfg h"
    then have "side_total SELL (approved st1) \<le> sale_proceeds cfg pf ps"
      unfolding st1_def by (rule after_sells_proceeds)
    then have le: "side_total SELL (approved st2) \<le> sale_proceeds cfg pf ps"
      by (simp only: same)
    with total show "side_total SELL (approved st2) \<le> sale_proceeds cfg pf ps \<and>
      side_total BUY (approved st2) \<le> max 0 (cash pf + sale_proceeds cfg pf ps)"
      by linarith
  qed
  have capped: "cap_inv cfg (portfolio_value pf) st2" if pv: "0 \<le> portfolio_value pf"
  proof -
    have "cap_inv cfg (portfolio_value pf) st1"
      unfolding st1_def by (rule after_sells_cap_inv)
    with pv show ?thesis
      unfolding st2_def by (rule foldl_process_buy_cap_inv)
  qed
  have cap: "0 \<le> portfolio_value pf \<longrightarrow>
      (\<forall>t \<in> set (approved st2). trade_side t = BUY \<longrightarrow>
         trade_value t \<le> max_position_pct cfg * portfolio_value pf)"
    using capped by (simp add: cap_inv_def)
  have "verdicts (initial_state pf) = {#}"
    by (simp add: verdicts_def initial_state_def)
  moreover have "\<forall>p \<in> set (sells_of ps). prop_action p = SELL"
    by (simp add: sells_of_def)
  ultimately have "verdicts st1 = mset (map proposal_key (sells_of ps))"
    unfolding st1_def after_sells_def by (simp add: verdicts_foldl_sell)
  moreover have "\<forall>p \<in> set (buys_of ps). prop_action p = BUY"
    by (simp add: set_buys_of)
  ultimately have "verdicts st2
      = mset (map proposal_key (sells_of ps)) + mset (map proposal_key (buys_of ps))"
    unfolding st2_def by (simp add: verdicts_foldl_buy)
  then have answered: "mset (map trade_key (approved st2)) + mset (map rejection_key (rejected st2))
      = mset (map proposal_key (filter (\<lambda>p. prop_action p \<noteq> HOLD) ps))"
    by (simp only: partition_keys verdicts_def)
  have position: "0 \<le> portfolio_value pf \<and> 0 \<le> max_position_pct cfg \<and>
    i \<notin> held_instrument ` set (open_positions pf) \<and>
    length (filter (\<lambda>p. proposal_key p = (i, BUY)) ps) \<le> 1 \<longrightarrow>
      position_value cfg pf (approved st2) i \<le> max_position_pct cfg * portfolio_value pf"
  proof
    assume a: "0 \<le> portfolio_value pf \<and> 0 \<le> max_position_pct cfg \<and>
      i \<notin> held_instrument ` set (open_positions pf) \<and>
      length (filter (\<lambda>p. proposal_key p = (i, BUY)) ps) \<le> 1"
    then have pv: "0 \<le> portfolio_value pf" and mp: "0 \<le> max_position_pct cfg"
      and unheld: "i \<notin> held_instrument ` set (open_positions pf)"
      and once: "length (filter (\<lambda>p. proposal_key p = (i, BUY)) ps) \<le> 1"
      by simp_all
    have held: "filter (\<lambda>h. held_instrument h = i) (open_positions pf) = []"
      using unheld by (auto simp: filter_empty_conv)
    have "sold_inv pf (initial_state pf)"
      by (simp add: sold_inv_def initial_state_def)
    then have "sold_inv pf st1"
      unfolding st1_def after_sells_def by (rule foldl_process_sell_sold_inv)
    then have "sold_inv pf st2"
      unfolding st2_def by (rule foldl_process_buy_sold_inv)
    then have "filter (\<lambda>t. trade_instrument t = i \<and> trade_side t = SELL) (approved st2) = []"
      using unheld by (auto simp: sold_inv_def filter_empty_conv)
    then have sells: "traded SELL i (approved st2) = 0"
      by (simp add: traded_def)
    have "count (mset (map trade_key (approved st2)) + mset (map rejection_key (rejected st2)))
        (i, BUY) = count (mset (map proposal_key (filter (\<lambda>p. prop_action p \<noteq> HOLD) ps))) (i, BUY)"
      by (simp only: answered)
    then have "length (filter (\<lambda>t. trade_key t = (i, BUY)) (approved st2))
          + length (filter (\<lambda>r. rejection_key r = (i, BUY)) (rejected st2))
        = length (filter (\<lambda>p. proposal_key p = (i, BUY)) (filter (\<lambda>p. prop_action p \<noteq> HOLD) ps))"
      by (simp only: count_union count_keys)
    then have "length (filter (\<lambda>t. trade_key t = (i, BUY)) (approved st2))
        \<le> length (filter (\<lambda>p. proposal_key p = (i, BUY)) (filter (\<lambda>p. prop_action p \<noteq> HOLD) ps))"
      by linarith
    also have "\<dots> \<le> length (filter (\<lambda>p. proposal_key p = (i, BUY)) ps)"
      by (rule length_filter_filter)
    finally have "length (filter (\<lambda>t. trade_key t = (i, BUY)) (approved st2)) \<le> 1"
      using once by simp
    then have n: "length (filter (\<lambda>t. trade_instrument t = i \<and> trade_side t = BUY) (approved st2)) \<le> 1"
      by (simp add: trade_key_def)
    have "\<forall>t \<in> set (filter (\<lambda>t. trade_instrument t = i \<and> trade_side t = BUY) (approved st2)).
        trade_value t \<le> max_position_pct cfg * portfolio_value pf"
      using capped [OF pv] by (simp add: cap_inv_def)
    with n have "traded BUY i (approved st2) \<le> max_position_pct cfg * portfolio_value pf"
      unfolding traded_def using pv mp by (intro sum_list_at_most_one) simp_all
    then show "position_value cfg pf (approved st2) i \<le> max_position_pct cfg * portfolio_value pf"
      by (simp add: position_value_def held sells)
  qed
  show ?thesis
    unfolding out fst_conv snd_conv using total proceeds cap position answered by blast
qed

lemma sample_run:
  "risk_validate sample_config invested_portfolio sample_batch
     = ([\<lparr>trade_instrument = ''SAP.DE'', trade_side = SELL, trade_quantity = 100,
           trade_value = 10000\<rparr>,
         \<lparr>trade_instrument = ''ASML.AS'', trade_side = BUY, trade_quantity = 10,
           trade_value = 500\<rparr>], [])"
  by (simp add: risk_validate_def after_sells_def initial_state_def sells_of_def buys_of_def
      sort_by_def process_sell_def process_buy_def reject_def to_base_def Let_def
      sample_config_def invested_portfolio_def sample_batch_def)

lemma buy_more_run:
  "risk_validate sample_config holding_portfolio buy_more_batch
     = ([\<lparr>trade_instrument = ''ASML.AS'', trade_side = BUY, trade_quantity = 10,
           trade_value = 500\<rparr>], [])"
  by (simp add: risk_validate_def after_sells_def initial_state_def sells_of_def buys_of_def
      sort_by_def process_sell_def process_buy_def reject_def to_base_def Let_def
      sample_config_def holding_portfolio_def buy_more_batch_def)

lemma buy_twice_run:
  "risk_validate sample_config holding_portfolio buy_twice_batch
     = ([\<lparr>trade_instrument = ''SAP.DE'', trade_side = BUY, trade_quantity = 5,
           trade_value = 500\<rparr>,
         \<lparr>trade_instrument = ''SAP.DE'', trade_side = BUY, trade_quantity = 5,
           trade_value = 500\<rparr>], [])"
  by (simp add: risk_validate_def after_sells_def initial_state_def sells_of_def buys_of_def
      sort_by_def compare_rat_def process_sell_def process_buy_def reject_def to_base_def
      Let_def sample_config_def holding_portfolio_def buy_twice_batch_def)

text \<open>
  C1, where the claim fails on the engine of section 4.2. (a) The SELLs of a batch are
  processed first and free cash for its BUYs: a portfolio with no cash that sells its one
  position (10000) buys for 500 in the same batch, more than the cash at the start.
  (b) The cap is applied to each BUY trade, not to the position that results: a
  portfolio of value 10000 that holds ASML.AS for 400 buys 500 more, and the position is
  900, above the cap of 500. (c) Two BUY proposals that name SAP.DE are each approved for
  500: the position is 1000.
\<close>

theorem risk_validate_start_cash_counterexample:
  "cash invested_portfolio = 0 \<and>
   map trade_side (fst (risk_validate sample_config invested_portfolio sample_batch))
     = [SELL, BUY] \<and>
   side_total BUY (fst (risk_validate sample_config invested_portfolio sample_batch)) = 500 \<and>
   \<not> side_total BUY (fst (risk_validate sample_config invested_portfolio sample_batch))
       \<le> cash invested_portfolio \<and>
   max_position_pct sample_config * portfolio_value holding_portfolio = 500 \<and>
   position_value sample_config holding_portfolio
     (fst (risk_validate sample_config holding_portfolio buy_more_batch)) ''ASML.AS'' = 900 \<and>
   position_value sample_config holding_portfolio
     (fst (risk_validate sample_config holding_portfolio buy_twice_batch)) ''SAP.DE'' = 1000"
proof -
  have start: "cash invested_portfolio = 0"
    by (simp add: invested_portfolio_def)
  have sides: "map trade_side (fst (risk_validate sample_config invested_portfolio sample_batch))
     = [SELL, BUY]"
    by (simp add: sample_run)
  have bought: "side_total BUY (fst (risk_validate sample_config invested_portfolio sample_batch))
     = 500"
    by (simp add: sample_run side_total_def)
  have cap: "max_position_pct sample_config * portfolio_value holding_portfolio = 500"
    by (simp add: sample_config_def holding_portfolio_def)
  have more: "position_value sample_config holding_portfolio
     (fst (risk_validate sample_config holding_portfolio buy_more_batch)) ''ASML.AS'' = 900"
    unfolding buy_more_run
    by (simp add: position_value_def traded_def holding_value_def to_base_def
        sample_config_def holding_portfolio_def)
  have twice: "position_value sample_config holding_portfolio
     (fst (risk_validate sample_config holding_portfolio buy_twice_batch)) ''SAP.DE'' = 1000"
    unfolding buy_twice_run
    by (simp add: position_value_def traded_def holding_value_def to_base_def
        sample_config_def holding_portfolio_def)
  show ?thesis
    unfolding bought start using sides cap more twice by simp
qed

theorem risk_validate_bounds_witness:
  "side_total BUY (fst (risk_validate sample_config invested_portfolio sample_batch)) = 500 \<and>
   cash invested_portfolio + sale_proceeds sample_config invested_portfolio sample_batch
     = 10000 \<and>
   max_position_pct sample_config * portfolio_value invested_portfolio = 500 \<and>
   trade_side (fst (risk_validate sample_config invested_portfolio sample_batch) ! 1) = BUY \<and>
   trade_value (fst (risk_validate sample_config invested_portfolio sample_batch) ! 1) \<le> 500 \<and>
   position_value sample_config invested_portfolio
     (fst (risk_validate sample_config invested_portfolio sample_batch)) ''ASML.AS'' \<le> 500 \<and>
   side_total BUY (fst (risk_validate sample_config invested_portfolio sample_batch))
     \<le> max 0 (cash invested_portfolio
          + sale_proceeds sample_config invested_portfolio sample_batch)"
proof -
  let ?out = "fst (risk_validate sample_config invested_portfolio sample_batch)"
  have pv: "0 \<le> portfolio_value invested_portfolio" "0 \<le> max_position_pct sample_config"
    by (simp_all add: invested_portfolio_def sample_config_def)
  have vals: "\<forall>h \<in> set (open_positions invested_portfolio). 0 \<le> holding_value sample_config h"
    by (simp add: invested_portfolio_def holding_value_def to_base_def sample_config_def)
  have cap: "max_position_pct sample_config * portfolio_value invested_portfolio = 500"
    by (simp add: sample_config_def invested_portfolio_def)
  have bought: "side_total BUY ?out = 500"
    by (simp add: sample_run side_total_def)
  have funds: "cash invested_portfolio + sale_proceeds sample_config invested_portfolio sample_batch
     = 10000"
    by (simp add: sale_proceeds_def sells_of_def holding_value_def to_base_def
        sample_config_def invested_portfolio_def sample_batch_def)
  have unheld: "''ASML.AS'' \<notin> held_instrument ` set (open_positions invested_portfolio)"
    by (simp add: invested_portfolio_def)
  have once: "length (filter (\<lambda>p. proposal_key p = (''ASML.AS'', BUY)) sample_batch) \<le> 1"
    by (simp add: sample_batch_def proposal_key_def)
  note claim = risk_validate_bounds [of sample_config invested_portfolio sample_batch "''ASML.AS''"]
  from claim vals have total:
    "side_total BUY ?out
       \<le> max 0 (cash invested_portfolio
            + sale_proceeds sample_config invested_portfolio sample_batch)"
    by blast
  from claim pv(1) have "\<forall>t \<in> set ?out. trade_side t = BUY \<longrightarrow>
       trade_value t \<le> max_position_pct sample_config * portfolio_value invested_portfolio"
    by blast
  then have each: "\<forall>t \<in> set ?out. trade_side t = BUY \<longrightarrow> trade_value t \<le> 500"
    unfolding cap .
  from claim pv unheld once have "position_value sample_config invested_portfolio ?out ''ASML.AS''
      \<le> max_position_pct sample_config * portfolio_value invested_portfolio"
    by blast
  then have position: "position_value sample_config invested_portfolio ?out ''ASML.AS'' \<le> 500"
    unfolding cap .
  have second: "?out ! 1 \<in> set ?out" "trade_side (?out ! 1) = BUY"
    by (simp_all add: sample_run)
  with each have capped: "trade_value (?out ! 1) \<le> 500"
    by blast
  from bought funds cap second(2) capped position total show ?thesis
    by blast
qed

end
